theory Spec2Isabelle
  imports Complex_Main "HOL-Library.Log_Nat"
begin

section \<open>JavaScript numbers\<close>

text \<open>
  A JavaScript Number is an IEEE 754 binary64 value. The finite non-zero values are
  rationals, \<open>Fin 0\<close> is the positive zero and \<open>NZero\<close> the negative one. Every
  arithmetic operation computes the exact rational result and rounds it to the nearest
  binary64 value, ties to even (\<open>rnd\<close>), overflowing to an infinity and underflowing
  through the subnormal range to a zero of the result's sign.
\<close>

datatype jsnum = Fin rat | NZero | PInf | NInf | NaN

definition ilog2 :: "rat \<Rightarrow> int" where
  \<comment> \<open>\<open>\<lfloor>log\<^sub>2 x\<rfloor>\<close> for a positive rational, from the bit lengths of numerator and denominator\<close>
  "ilog2 x = (case quotient_of x of (p, q) \<Rightarrow>
      (let d = bitlen p - bitlen q in if 2 powi d \<le> x then d else d - 1))"

definition round_half_even :: "rat \<Rightarrow> int" where
  "round_half_even y =
     (let n = \<lfloor>y\<rfloor>; r = y - of_int n
      in if r < 1 / 2 then n else if 1 / 2 < r then n + 1 else if even n then n else n + 1)"

definition expo :: "rat \<Rightarrow> int" where
  \<comment> \<open>the binary exponent of a non-zero value, held at -1022 in the subnormal range\<close>
  "expo x = max (ilog2 \<bar>x\<bar>) (- 1022)"

definition ulp :: "rat \<Rightarrow> rat" where
  \<comment> \<open>the spacing of binary64 values around a non-zero x: 53 significant bits\<close>
  "ulp x = 2 powi (expo x - 52)"

definition is_double :: "rat \<Rightarrow> bool" where
  \<comment> \<open>x is a binary64 value: a whole number of units in the last place, below \<open>2\<^sup>1\<^sup>0\<^sup>2\<^sup>4\<close>\<close>
  "is_double x = (x = 0 \<or>
     (of_int \<lfloor>\<bar>x\<bar> / ulp x\<rfloor> = \<bar>x\<bar> / ulp x \<and> expo x \<le> 1023))"

definition rnd :: "rat \<Rightarrow> jsnum" where
  "rnd x =
     (if x = 0 then Fin 0
      else let n = round_half_even (\<bar>x\<bar> / ulp x)
           in if 1023 < expo x \<or> (expo x = 1023 \<and> 2 ^ 53 \<le> n)
              then (if 0 < x then PInf else NInf)
              else if n = 0 then (if 0 < x then Fin 0 else NZero)
              else Fin (if 0 < x then of_int n * ulp x else - (of_int n * ulp x)))"


fun is_finite :: "jsnum \<Rightarrow> bool" where
  "is_finite (Fin r) = True"
| "is_finite NZero = True"
| "is_finite _ = False"

fun is_zero :: "jsnum \<Rightarrow> bool" where
  "is_zero (Fin r) = (r = 0)"
| "is_zero NZero = True"
| "is_zero _ = False"

fun is_inf :: "jsnum \<Rightarrow> bool" where
  "is_inf PInf = True"
| "is_inf NInf = True"
| "is_inf _ = False"

fun sign_neg :: "jsnum \<Rightarrow> bool" where
  \<comment> \<open>the sign bit\<close>
  "sign_neg (Fin r) = (r < 0)"
| "sign_neg NZero = True"
| "sign_neg NInf = True"
| "sign_neg _ = False"

fun fval :: "jsnum \<Rightarrow> rat" where
  \<comment> \<open>the mathematical value of a finite Number\<close>
  "fval (Fin r) = r"
| "fval _ = 0"

fun num_neg :: "jsnum \<Rightarrow> jsnum" where
  "num_neg (Fin r) = (if r = 0 then NZero else Fin (- r))"
| "num_neg NZero = Fin 0"
| "num_neg PInf = NInf"
| "num_neg NInf = PInf"
| "num_neg NaN = NaN"

definition num_add :: "jsnum \<Rightarrow> jsnum \<Rightarrow> jsnum" where
  "num_add x y =
     (if x = NaN \<or> y = NaN then NaN
      else if is_inf x \<and> is_inf y then (if x = y then x else NaN)
      else if is_inf x then x
      else if is_inf y then y
      else if is_zero x \<and> is_zero y then (if sign_neg x \<and> sign_neg y then NZero else Fin 0)
      else if fval x + fval y = 0 then Fin 0
      else rnd (fval x + fval y))"

definition num_sub :: "jsnum \<Rightarrow> jsnum \<Rightarrow> jsnum" where
  "num_sub x y = num_add x (num_neg y)"

definition num_mul :: "jsnum \<Rightarrow> jsnum \<Rightarrow> jsnum" where
  "num_mul x y =
     (if x = NaN \<or> y = NaN then NaN
      else if (is_inf x \<and> is_zero y) \<or> (is_zero x \<and> is_inf y) then NaN
      else if is_inf x \<or> is_inf y then (if sign_neg x \<noteq> sign_neg y then NInf else PInf)
      else if is_zero x \<or> is_zero y then (if sign_neg x \<noteq> sign_neg y then NZero else Fin 0)
      else rnd (fval x * fval y))"

definition num_div :: "jsnum \<Rightarrow> jsnum \<Rightarrow> jsnum" where
  "num_div x y =
     (if x = NaN \<or> y = NaN then NaN
      else if (is_inf x \<and> is_inf y) \<or> (is_zero x \<and> is_zero y) then NaN
      else if is_inf x \<or> is_zero y then (if sign_neg x \<noteq> sign_neg y then NInf else PInf)
      else if is_inf y \<or> is_zero x then (if sign_neg x \<noteq> sign_neg y then NZero else Fin 0)
      else rnd (fval x / fval y))"

definition num_lt :: "jsnum \<Rightarrow> jsnum \<Rightarrow> bool" where
  \<comment> \<open>\<open>x < y\<close> on Numbers; false when either is NaN; the two zeros compare equal\<close>
  "num_lt x y =
     (if x = NaN \<or> y = NaN then False
      else if x = PInf \<or> y = NInf then False
      else if x = NInf \<or> y = PInf then True
      else fval x < fval y)"

definition num_le :: "jsnum \<Rightarrow> jsnum \<Rightarrow> bool" where
  \<comment> \<open>\<open>x <= y\<close>: neither is NaN and not \<open>y < x\<close>\<close>
  "num_le x y = (x \<noteq> NaN \<and> y \<noteq> NaN \<and> \<not> num_lt y x)"

definition num_ge :: "jsnum \<Rightarrow> jsnum \<Rightarrow> bool" where
  "num_ge x y = (x \<noteq> NaN \<and> y \<noteq> NaN \<and> \<not> num_lt x y)"


definition math_max :: "jsnum \<Rightarrow> jsnum \<Rightarrow> jsnum" where
  \<comment> \<open>\<open>Math.max(x, y)\<close> of two Numbers: NaN if either is, and +0 is larger than -0\<close>
  "math_max x y =
     (if x = NaN \<or> y = NaN then NaN
      else if num_lt x y then y
      else if num_lt y x then x
      else if sign_neg x then y else x)"

fun math_ceil :: "jsnum \<Rightarrow> jsnum" where
  "math_ceil (Fin r) = (if - 1 < r \<and> r < 0 then NZero else Fin (of_int \<lceil>r\<rceil>))"
| "math_ceil x = x"

section \<open>JavaScript values and objects\<close>

text \<open>
  The values a field of the JSON payload, an argument or a form input can hold: the
  scalars of JSON, \<open>undefined\<close> for an absent property. An object is the finite map of
  its own properties; reading an absent property gives \<open>undefined\<close>.
\<close>

datatype jsval = JUndefined | JNull | JBool bool | JNum jsnum | JStr string

type_synonym obj = "string \<rightharpoonup> jsval"

definition get :: "obj \<Rightarrow> string \<Rightarrow> jsval" where
  "get ob k = (case ob k of None \<Rightarrow> JUndefined | Some v \<Rightarrow> v)"

text \<open>
  The conversions between strings and numbers are built into the JavaScript host and are
  not part of the program: they are parameters of the model. \<open>StringToNumber\<close> is
  \<open>Number(s)\<close> on a string, \<open>FiniteToString\<close> is \<open>String(x)\<close> on a finite non-zero
  Number, and \<open>parseFloatString\<close> is \<open>Number.parseFloat(s)\<close> on a string. The page's
  HTML is not among the sources either: \<open>fieldValue i s\<close> is the value that the form
  field with id \<open>i\<close> holds once the string \<open>s\<close> has been assigned to it.
\<close>

record host =
  StringToNumber :: "string \<Rightarrow> jsnum"
  FiniteToString :: "rat \<Rightarrow> string"
  parseFloatString :: "string \<Rightarrow> jsnum"
  fieldValue :: "string \<Rightarrow> string \<Rightarrow> string"

fun ToBoolean :: "jsval \<Rightarrow> bool" where
  "ToBoolean JUndefined = False"
| "ToBoolean JNull = False"
| "ToBoolean (JBool b) = b"
| "ToBoolean (JNum n) = (\<not> is_zero n \<and> n \<noteq> NaN)"
| "ToBoolean (JStr s) = (s \<noteq> [])"

fun ToNumber :: "host \<Rightarrow> jsval \<Rightarrow> jsnum" where
  "ToNumber H JUndefined = NaN"
| "ToNumber H JNull = Fin 0"
| "ToNumber H (JBool b) = (if b then Fin 1 else Fin 0)"
| "ToNumber H (JNum n) = n"
| "ToNumber H (JStr s) = StringToNumber H s"

fun NumberToString :: "host \<Rightarrow> jsnum \<Rightarrow> string" where
  "NumberToString H NaN = ''NaN''"
| "NumberToString H PInf = ''Infinity''"
| "NumberToString H NInf = ''-Infinity''"
| "NumberToString H NZero = ''0''"
| "NumberToString H (Fin r) = (if r = 0 then ''0'' else FiniteToString H r)"

fun ToString :: "host \<Rightarrow> jsval \<Rightarrow> string" where
  "ToString H JUndefined = ''undefined''"
| "ToString H JNull = ''null''"
| "ToString H (JBool b) = (if b then ''true'' else ''false'')"
| "ToString H (JNum n) = NumberToString H n"
| "ToString H (JStr s) = s"

definition nullish :: "jsval \<Rightarrow> jsval \<Rightarrow> jsval" where
  \<comment> \<open>\<open>a ?? b\<close>\<close>
  "nullish a b = (if a = JUndefined \<or> a = JNull then b else a)"

definition js_or :: "jsval \<Rightarrow> jsval \<Rightarrow> jsval" where
  \<comment> \<open>\<open>a || b\<close>\<close>
  "js_or a b = (if ToBoolean a then a else b)"

definition js_plus :: "host \<Rightarrow> jsval \<Rightarrow> jsval \<Rightarrow> jsval" where
  \<comment> \<open>\<open>a + b\<close>: concatenation as soon as one operand is a string\<close>
  "js_plus H a b =
     (case (a, b) of
        (JStr s, _) \<Rightarrow> JStr (s @ ToString H b)
      | (_, JStr t) \<Rightarrow> JStr (ToString H a @ t)
      | _ \<Rightarrow> JNum (num_add (ToNumber H a) (ToNumber H b)))"

definition js_minus :: "host \<Rightarrow> jsval \<Rightarrow> jsval \<Rightarrow> jsnum" where
  "js_minus H a b = num_sub (ToNumber H a) (ToNumber H b)"

definition js_times :: "host \<Rightarrow> jsval \<Rightarrow> jsval \<Rightarrow> jsnum" where
  "js_times H a b = num_mul (ToNumber H a) (ToNumber H b)"

definition js_divide :: "host \<Rightarrow> jsval \<Rightarrow> jsval \<Rightarrow> jsnum" where
  "js_divide H a b = num_div (ToNumber H a) (ToNumber H b)"

definition Math_max :: "host \<Rightarrow> jsval \<Rightarrow> jsval \<Rightarrow> jsnum" where
  "Math_max H a b = math_max (ToNumber H a) (ToNumber H b)"

section \<open>The dashboard: src/app/app.js\<close>

subsection \<open>computeSeriesMetrics\<close>

definition zero :: jsval where
  "zero = JNum (Fin 0)"

definition metric_durable :: "host \<Rightarrow> obj \<Rightarrow> jsnum" where
  \<comment> \<open>\<open>const durable = point.mu_a * point.q\<close>\<close>
  "metric_durable H point = js_times H (get point ''mu_a'') (get point ''q'')"

definition metric_returnWork :: "host \<Rightarrow> obj \<Rightarrow> jsnum" where
  \<comment> \<open>\<open>const returnWork = point.mu_a - durable\<close>\<close>
  "metric_returnWork H point = js_minus H (get point ''mu_a'') (JNum (metric_durable H point))"

definition metric_cEff :: "host \<Rightarrow> obj \<Rightarrow> jsnum" where
  \<comment> \<open>\<open>const cEff = Math.max(0, (point.capacity ?? 0) - (point.drift ?? 0))\<close>\<close>
  "metric_cEff H point =
     Math_max H zero
       (JNum (js_minus H (nullish (get point ''capacity'') zero)
                         (nullish (get point ''drift'') zero)))"

definition metric_bound :: "host \<Rightarrow> obj \<Rightarrow> jsnum" where
  \<comment> \<open>\<open>const bound = point.b_req ? cEff / point.b_req : 0\<close>\<close>
  "metric_bound H point =
     (if ToBoolean (get point ''b_req'')
      then js_divide H (JNum (metric_cEff H point)) (get point ''b_req'') else Fin 0)"

definition metric_exceedance :: "host \<Rightarrow> obj \<Rightarrow> jsnum" where
  \<comment> \<open>\<open>const exceedance = Math.max(0, (point.drift ?? 0) + point.lambda * (point.b_req ?? 0)
      - (point.capacity ?? 0))\<close>\<close>
  "metric_exceedance H point =
     Math_max H zero
       (JNum (js_minus H
          (js_plus H (nullish (get point ''drift'') zero)
             (JNum (js_times H (get point ''lambda'') (nullish (get point ''b_req'') zero))))
          (nullish (get point ''capacity'') zero)))"

definition computeSeriesMetrics :: "host \<Rightarrow> obj \<Rightarrow> obj" where
  \<comment> \<open>the object literal \<open>{...point, mu_d: durable, return_work: returnWork, c_eff: cEff,
      mu_bar: bound, exceedance}\<close>\<close>
  "computeSeriesMetrics H point =
     point(''mu_d'' \<mapsto> JNum (metric_durable H point),
           ''return_work'' \<mapsto> JNum (metric_returnWork H point),
           ''c_eff'' \<mapsto> JNum (metric_cEff H point),
           ''mu_bar'' \<mapsto> JNum (metric_bound H point),
           ''exceedance'' \<mapsto> JNum (metric_exceedance H point))"

subsection \<open>buildDerivedSeries\<close>

text \<open>
  The global \<open>state\<close> of the page. Its \<open>chart\<close> field is the handle of the charting
  library and is left out: nothing computed here reads it.
\<close>

record state =
  rawSeries :: "obj list"
  series :: "obj list"
  horizonDays :: jsval
  synthetic :: bool
  lagPeriods :: jsnum

definition initial_state :: state where
  "initial_state =
     \<lparr>rawSeries = [], series = [], horizonDays = JNum (Fin 30), synthetic = False,
      lagPeriods = Fin 0\<rparr>"

datatype error = TypeError | RangeError

definition index_of :: "jsnum \<Rightarrow> nat option" where
  \<comment> \<open>the array index that a Number used as a property key denotes, if any\<close>
  "index_of x =
     (case x of
        Fin r \<Rightarrow> if 0 \<le> r \<and> of_int \<lfloor>r\<rfloor> = r then Some (nat \<lfloor>r\<rfloor>) else None
      | NZero \<Rightarrow> Some 0
      | _ \<Rightarrow> None)"

definition array_get :: "'a list \<Rightarrow> jsnum \<Rightarrow> 'a option" where
  \<comment> \<open>\<open>xs[x]\<close>; \<open>None\<close> is \<open>undefined\<close>: no such element\<close>
  "array_get xs x =
     (case index_of x of
        Some j \<Rightarrow> if j < length xs then Some (xs ! j) else None
      | None \<Rightarrow> None)"

definition lagged :: "obj list \<Rightarrow> jsnum \<Rightarrow> string \<Rightarrow> error + jsval" where
  \<comment> \<open>\<open>exitIdx >= 0 ? rawSeries[exitIdx].k : null\<close>; reading a property of \<open>undefined\<close> throws\<close>
  "lagged raw exitIdx k =
     (if num_ge exitIdx (Fin 0)
      then (case array_get raw exitIdx of
              None \<Rightarrow> Inl TypeError
            | Some src \<Rightarrow> Inr (get src k))
      else Inr JNull)"

definition derive :: "obj list \<Rightarrow> jsnum \<Rightarrow> obj \<Rightarrow> nat \<Rightarrow> error + obj" where
  \<comment> \<open>the callback given to \<open>rawSeries.map\<close>\<close>
  "derive raw lag point idx =
     (let exitIdx = num_sub (Fin (of_nat idx)) lag
      in case lagged raw exitIdx ''mu_d'' of
           Inl e \<Rightarrow> Inl e
         | Inr mu_d_exit \<Rightarrow>
             (case lagged raw exitIdx ''week'' of
                Inl e \<Rightarrow> Inl e
              | Inr cohort_week \<Rightarrow>
                  Inr (point(''mu_d_exit'' \<mapsto> mu_d_exit, ''cohort_week'' \<mapsto> cohort_week))))"

fun map_idx :: "('a \<Rightarrow> nat \<Rightarrow> error + 'b) \<Rightarrow> 'a list \<Rightarrow> nat \<Rightarrow> error + 'b list" where
  \<comment> \<open>\<open>xs.map((x, idx) => f)\<close> from index i on; the first exception ends it\<close>
  "map_idx f [] i = Inr []"
| "map_idx f (x # xs) i =
     (case f x i of
        Inl e \<Rightarrow> Inl e
      | Inr y \<Rightarrow> (case map_idx f xs (Suc i) of Inl e \<Rightarrow> Inl e | Inr ys \<Rightarrow> Inr (y # ys)))"

definition lagPeriods_of :: "host \<Rightarrow> jsval \<Rightarrow> jsval \<Rightarrow> jsnum" where
  \<comment> \<open>\<open>const lagPeriods = Math.max(1, Math.ceil(horizonDays / periodDays))\<close>\<close>
  "lagPeriods_of H hDays pDays = math_max (Fin 1) (math_ceil (js_divide H hDays pDays))"

definition buildDerivedSeries ::
  "host \<Rightarrow> state \<Rightarrow> obj list \<Rightarrow> jsval \<Rightarrow> jsval \<Rightarrow> state \<times> (error + obj list)" where
  \<comment> \<open>the state comes back with \<open>state.lagPeriods\<close> assigned, also when the map throws\<close>
  "buildDerivedSeries H st raw hDays pDays =
     (if raw = [] \<or> \<not> ToBoolean pDays \<or> num_le (ToNumber H pDays) (Fin 0) then (st, Inr [])
      else let lag = lagPeriods_of H hDays pDays;
               st' = st\<lparr>lagPeriods := lag\<rparr>
           in (st', map_idx (derive raw lag) raw 0))"

subsection \<open>formatNumber\<close>

definition em_dash :: string where
  \<comment> \<open>the placeholder, U+2014, in UTF-8\<close>
  "em_dash = [CHR 0xE2, CHR 0x80, CHR 0x94]"

fun dec :: "nat \<Rightarrow> string" where
  \<comment> \<open>the decimal digits of a natural number\<close>
  "dec n = (if n < 10 then [''0123456789'' ! n] else dec (n div 10) @ [''0123456789'' ! (n mod 10)])"

declare dec.simps [simp del]

definition ToIntegerOrInfinity :: "jsnum \<Rightarrow> int option" where
  \<comment> \<open>\<open>None\<close> is an infinity\<close>
  "ToIntegerOrInfinity x =
     (case x of
        NaN \<Rightarrow> Some 0
      | NZero \<Rightarrow> Some 0
      | Fin r \<Rightarrow> Some (if 0 \<le> r then \<lfloor>r\<rfloor> else \<lceil>r\<rceil>)
      | _ \<Rightarrow> None)"

definition toFixed :: "host \<Rightarrow> jsnum \<Rightarrow> jsval \<Rightarrow> error + string" where
  \<comment> \<open>\<open>Number.prototype.toFixed\<close>\<close>
  "toFixed H x fractionDigits =
     (case ToIntegerOrInfinity (ToNumber H fractionDigits) of
        None \<Rightarrow> Inl RangeError
      | Some f \<Rightarrow>
          if f < 0 \<or> 100 < f then Inl RangeError
          else if \<not> is_finite x then Inr (NumberToString H x)
          else let s = (if fval x < 0 then ''-'' else []); a = \<bar>fval x\<bar>
               in if 10 ^ 21 \<le> a then Inr (s @ NumberToString H (Fin a))
                  else let k = nat f;
                           m = dec (nat \<lfloor>a * 10 ^ k + 1 / 2\<rfloor>);
                           m' = (if length m \<le> k
                                 then replicate (k + 1 - length m) (CHR ''0'') @ m else m)
                       in Inr (s @ (if k = 0 then m
                                    else take (length m' - k) m' @ ''.'' @ drop (length m' - k) m')))"

fun replace_dot_zeros :: "string \<Rightarrow> string \<Rightarrow> string" where
  \<comment> \<open>\<open>s.replace(/\.0+$/, repl)\<close>: a dot followed by zeros only, up to the end\<close>
  "replace_dot_zeros [] repl = []"
| "replace_dot_zeros (c # cs) repl =
     (if c = CHR ''.'' \<and> cs \<noteq> [] \<and> list_all (\<lambda>d. d = CHR ''0'') cs then repl
      else c # replace_dot_zeros cs repl)"

definition formatNumber :: "host \<Rightarrow> jsval \<Rightarrow> jsval \<Rightarrow> error + string" where
  \<comment> \<open>the parameter \<open>digits\<close> defaults to 1 when it is \<open>undefined\<close>\<close>
  "formatNumber H v digits =
     (let n = ToNumber H v
      in if \<not> is_finite n then Inr em_dash
         else case toFixed H n (if digits = JUndefined then JNum (Fin 1) else digits) of
                Inl e \<Rightarrow> Inl e
              | Inr fixed \<Rightarrow> Inr (replace_dot_zeros fixed []))"

definition parseFloat :: "host \<Rightarrow> jsval \<Rightarrow> jsnum" where
  \<comment> \<open>\<open>Number.parseFloat(v)\<close>: the argument is converted to a string first\<close>
  "parseFloat H v = parseFloatString H (ToString H v)"

definition formatNumber_old :: "host \<Rightarrow> jsval \<Rightarrow> jsval \<Rightarrow> error + string" where
  \<comment> \<open>the earlier copy of the dashboard, src/unnamed/part_000\<close>
  "formatNumber_old H v digits =
     (case toFixed H (parseFloat H v) (if digits = JUndefined then JNum (Fin 1) else digits) of
        Inl e \<Rightarrow> Inl e
      | Inr fixed \<Rightarrow> Inr (replace_dot_zeros fixed ''.0''))"

subsection \<open>updateSummaryFromInputs\<close>

text \<open>The form of the page: the \<open>value\<close> of each input, by element id.\<close>

type_synonym form = "string \<Rightarrow> string"

definition setField :: "host \<Rightarrow> form \<Rightarrow> string \<Rightarrow> jsval \<Rightarrow> form" where
  \<comment> \<open>\<open>document.getElementById(i).value = v\<close>\<close>
  "setField H f i v = f(i := fieldValue H i (ToString H v))"

definition parsed_or :: "host \<Rightarrow> form \<Rightarrow> string \<Rightarrow> jsval \<Rightarrow> jsval" where
  \<comment> \<open>\<open>Number.parseFloat(document.getElementById(i).value) || d\<close>\<close>
  "parsed_or H f i d = js_or (JNum (parseFloatString H (f i))) d"

datatype status = Exceeds | Forcing | Within

record summary =
  capacityOut :: "error + string"
  boundOut :: "error + string"
  durableOut :: "error + string"
  returnOut :: "error + string"
  exceedanceOut :: "error + string"
  liveStatus :: status

definition summaryMetrics :: "host \<Rightarrow> form \<Rightarrow> jsnum \<times> jsnum \<times> jsnum \<times> jsnum \<times> jsnum \<times> jsnum" where
  \<comment> \<open>the six numbers computed before anything is written to the page\<close>
  "summaryMetrics H f =
     (let capacity = parsed_or H f ''capacity'' zero;
          drift = parsed_or H f ''drift'' zero;
          bReq = parsed_or H f ''breq'' (JNum (Fin 1));
          attempted = parsed_or H f ''attempted'' zero;
          durability = parsed_or H f ''durability'' zero;
          lambda = parsed_or H f ''lambda'' zero;
          cEff = Math_max H zero (JNum (js_minus H capacity drift));
          bound = (if num_lt (Fin 0) (ToNumber H bReq) then js_divide H (JNum cEff) bReq else Fin 0);
          muD = js_times H attempted durability;
          returnWork = js_minus H attempted (JNum muD);
          exceedance = Math_max H zero
             (JNum (js_minus H (js_plus H drift (JNum (js_times H lambda bReq))) capacity))
      in (cEff, bound, muD, returnWork, exceedance, ToNumber H attempted))"

definition updateSummaryFromInputs :: "host \<Rightarrow> form \<Rightarrow> summary" where
  \<comment> \<open>what the function writes to the page\<close>
  "updateSummaryFromInputs H f =
     (case summaryMetrics H f of (cEff, bound, muD, returnWork, exceedance, attempted) \<Rightarrow>
        \<lparr>capacityOut = formatNumber H (JNum cEff) (JNum (Fin 1)),
         boundOut = formatNumber H (JNum bound) (JNum (Fin 1)),
         durableOut = formatNumber H (JNum muD) (JNum (Fin 1)),
         returnOut = formatNumber H (JNum returnWork) (JNum (Fin 1)),
         exceedanceOut = formatNumber H (JNum exceedance) (JNum (Fin 1)),
         liveStatus =
           (if num_lt bound muD \<and> num_lt (Fin 0) bound then Exceeds
            else if num_lt bound attempted \<and> num_lt muD attempted then Forcing
            else Within)\<rparr>)"

subsection \<open>loadSampleData and recomputeAndRender\<close>

text \<open>
  The page is the global state and the form. \<open>renderChart\<close> and
  \<open>updateSummaryFromInputs\<close> write text and a chart only: they change neither. The second
  component of a result is the exception that ended the call, if one did.
\<close>

record page =
  global :: state
  inputs :: form

definition recomputeAndRender :: "host \<Rightarrow> page \<Rightarrow> page \<times> error option" where
  "recomputeAndRender H pg =
     (if rawSeries (global pg) = [] then (pg, None)
      else let hDays = parsed_or H (inputs pg) ''horizon'' (horizonDays (global pg));
               pDays = parsed_or H (inputs pg) ''periodDays'' (JNum (Fin 1));
               st1 = (global pg)\<lparr>horizonDays := hDays\<rparr>
           in case buildDerivedSeries H st1 (rawSeries st1) hDays pDays of
                (st2, Inl e) \<Rightarrow> (pg\<lparr>global := st2\<rparr>, Some e)
              | (st2, Inr derived) \<Rightarrow> (pg\<lparr>global := st2\<lparr>series := derived\<rparr>\<rparr>, None))"

text \<open>
  The fetched payload: its \<open>series\<close> array and its other properties (\<open>synthetic\<close>,
  \<open>horizon_days\<close>, \<open>boundary\<close>, \<open>fidelity\<close>).
\<close>

record payload =
  series_of :: "obj list"
  props :: obj

definition pick :: "obj \<Rightarrow> obj" where
  \<comment> \<open>the object literal that \<open>loadSampleData\<close> builds from a point of the payload\<close>
  "pick point =
     [''lambda'' \<mapsto> get point ''lambda'',
      ''mu_a'' \<mapsto> get point ''mu_a'',
      ''q'' \<mapsto> get point ''q'',
      ''backlog'' \<mapsto> get point ''backlog'',
      ''week'' \<mapsto> get point ''week'',
      ''drift'' \<mapsto> get point ''drift'',
      ''b_req'' \<mapsto> get point ''b_req'',
      ''capacity'' \<mapsto> get point ''capacity'']"

definition sample_state :: "host \<Rightarrow> payload \<Rightarrow> state \<Rightarrow> state" where
  \<comment> \<open>the three assignments to \<open>state\<close> in \<open>loadSampleData\<close>\<close>
  "sample_state H pl s =
     s\<lparr>rawSeries := map (\<lambda>point. computeSeriesMetrics H (pick point)) (series_of pl),
       synthetic := ToBoolean (get (props pl) ''synthetic''),
       horizonDays := js_or (get (props pl) ''horizon_days'') (JNum (Fin 30))\<rparr>"

definition loadSampleData :: "host \<Rightarrow> payload \<Rightarrow> page \<Rightarrow> page \<times> error option" where
  \<comment> \<open>with an empty series \<open>latest\<close> is \<open>undefined\<close>: reading \<open>latest.capacity\<close> throws,
      the \<open>catch\<close> logs the exception and nothing is recomputed\<close>
  "loadSampleData H pl pg =
     (let st1 = sample_state H pl (global pg);
          annotatedSeries = rawSeries st1;
          f1 = setField H (inputs pg) ''boundaryName''
                 (js_or (get (props pl) ''boundary'') (JStr ''Declared boundary''));
          f2 = setField H f1 ''horizon'' (horizonDays st1);
          f3 = setField H f2 ''periodDays'' (JNum (Fin 7));
          f4 = setField H f3 ''fidelity'' (js_or (get (props pl) ''fidelity'') (JStr []))
      in if annotatedSeries = [] then (\<lparr>global = st1, inputs = f4\<rparr>, Some TypeError)
         else let latest = last annotatedSeries;
                  f5 = setField H f4 ''capacity'' (nullish (get latest ''capacity'') zero);
                  f6 = setField H f5 ''drift'' (nullish (get latest ''drift'') zero);
                  f7 = setField H f6 ''breq'' (nullish (get latest ''b_req'') (JNum (Fin 1)));
                  f8 = setField H f7 ''attempted'' (nullish (get latest ''mu_a'') zero);
                  f9 = setField H f8 ''durability'' (nullish (get latest ''q'') zero);
                  f10 = setField H f9 ''lambda'' (nullish (get latest ''lambda'') zero)
              in recomputeAndRender H \<lparr>global = st1, inputs = f10\<rparr>)"

section \<open>The closure accounting engine\<close>

text \<open>
  The engine that the wrapper \<open>src/tests/bpi_2013/run.sh\<close> drives (\<open>occ_harness.py\<close>) is
  not among the sources. Its stages are modelled from the specification; dates are day
  numbers.
\<close>

datatype event_type = Accepted | Completed

record raw_event =
  entity_id :: string
  event_type :: event_type
  event_date :: int

datatype kind = Arrival | Attempt | Reopen

record classified_event =
  entity :: string
  kind :: kind
  date :: int

datatype durability = Durable | Bounced | Pending

record attempt_record =
  a_entity :: string
  a_date :: int
  a_status :: durability

definition entity_events :: "raw_event list \<Rightarrow> string \<Rightarrow> raw_event list" where
  \<comment> \<open>Modelled from the spec: the Entity of section 3, its events ordered by date, ties in
      input order (a stable sort).\<close>
  "entity_events es e = sort_key event_date (filter (\<lambda>r. entity_id r = e) es)"

fun replay :: "bool \<Rightarrow> raw_event list \<Rightarrow> classified_event list option" where
  \<comment> \<open>Modelled from the spec: the single pass of section 4.2 over one entity's events,
      with the flag "has this entity arrived yet". \<open>None\<close>: a Completed event precedes
      every Accepted one, and the entity is excluded.\<close>
  "replay seen [] = Some []"
| "replay seen (r # rs) =
     (case event_type r of
        Accepted \<Rightarrow>
          map_option
            (Cons \<lparr>entity = entity_id r, kind = (if seen then Reopen else Arrival),
                   date = event_date r\<rparr>)
            (replay True rs)
      | Completed \<Rightarrow>
          if seen
          then map_option (Cons \<lparr>entity = entity_id r, kind = Attempt, date = event_date r\<rparr>)
                 (replay seen rs)
          else None)"

definition classify :: "raw_event list \<Rightarrow> classified_event list" where
  \<comment> \<open>Modelled from the spec: the Entity State Machine of section 4.2.\<close>
  "classify es =
     concat (map (\<lambda>e. case replay False (entity_events es e) of None \<Rightarrow> [] | Some cs \<Rightarrow> cs)
               (remdups (map entity_id es)))"

fun max_list :: "int list \<Rightarrow> int" where
  "max_list [] = 0"
| "max_list [x] = x"
| "max_list (x # y # ys) = max x (max_list (y # ys))"

fun min_list :: "int list \<Rightarrow> int" where
  "min_list [] = 0"
| "min_list [x] = x"
| "min_list (x # y # ys) = min x (min_list (y # ys))"

definition max_date :: "classified_event list \<Rightarrow> int" where
  \<comment> \<open>Modelled from the spec: the maximum observed date in the ledger.\<close>
  "max_date ces = max_list (map date ces)"

definition min_date :: "classified_event list \<Rightarrow> int" where
  "min_date ces = min_list (map date ces)"

definition reopened_within :: "classified_event list \<Rightarrow> int \<Rightarrow> classified_event \<Rightarrow> bool" where
  \<comment> \<open>Modelled from the spec: a Reopen of the same entity in \<open>(d, d+T]\<close>.\<close>
  "reopened_within ces T a =
     list_ex (\<lambda>r. kind r = Reopen \<and> entity r = entity a \<and> date a < date r \<and> date r \<le> date a + T)
       ces"

definition durability_of :: "classified_event list \<Rightarrow> int \<Rightarrow> classified_event \<Rightarrow> durability" where
  \<comment> \<open>Modelled from the spec: section 4.3. The edge policy comes first: an attempt whose
      window \<open>d+T\<close> exceeds the maximum observed date is pending.\<close>
  "durability_of ces T a =
     (if max_date ces < date a + T then Pending
      else if reopened_within ces T a then Bounced
      else Durable)"

definition classify_durability :: "classified_event list \<Rightarrow> int \<Rightarrow> attempt_record list" where
  \<comment> \<open>Modelled from the spec: the Durability Classifier of section 4.3, one record for
      each Attempt.\<close>
  "classify_durability ces T =
     map (\<lambda>a. \<lparr>a_entity = entity a, a_date = date a, a_status = durability_of ces T a\<rparr>)
       (filter (\<lambda>c. kind c = Attempt) ces)"

record daily_bucket =
  b_date :: int
  arrivals :: nat
  attempts :: nat
  reopens :: nat
  durable :: nat
  bounced :: nat
  pending :: nat

definition count_kind :: "classified_event list \<Rightarrow> kind \<Rightarrow> int \<Rightarrow> nat" where
  "count_kind ces k d = length (filter (\<lambda>c. kind c = k \<and> date c = d) ces)"

definition count_status :: "attempt_record list \<Rightarrow> durability \<Rightarrow> int \<Rightarrow> nat" where
  "count_status ars s d = length (filter (\<lambda>a. a_status a = s \<and> a_date a = d) ars)"

definition bucket :: "classified_event list \<Rightarrow> attempt_record list \<Rightarrow> int \<Rightarrow> daily_bucket" where
  \<comment> \<open>Modelled from the spec: the DailyBucket of section 3, with the pending column of the
      output table of section 6. Durable, bounced and pending attempts are counted on the
      attempt's date.\<close>
  "bucket ces ars d =
     \<lparr>b_date = d,
      arrivals = count_kind ces Arrival d,
      attempts = count_kind ces Attempt d,
      reopens = count_kind ces Reopen d,
      durable = count_status ars Durable d,
      bounced = count_status ars Bounced d,
      pending = count_status ars Pending d\<rparr>"

definition aggregate :: "classified_event list \<Rightarrow> attempt_record list \<Rightarrow> daily_bucket list" where
  \<comment> \<open>Modelled from the spec: the Daily Aggregator of section 4.4, one bucket for every day
      from the first to the last event date.\<close>
  "aggregate ces ars =
     (if ces = [] then [] else map (bucket ces ars) [min_date ces..max_date ces])"

definition validate :: "daily_bucket list \<Rightarrow> daily_bucket list" where
  \<comment> \<open>Modelled from the spec: the Conservation Validator of section 4.5; the violations
      are the days with no pending attempt whose counts do not add up.\<close>
  "validate bs = filter (\<lambda>b. pending b = 0 \<and> attempts b \<noteq> durable b + bounced b) bs"

definition pending_by_day :: "daily_bucket list \<Rightarrow> (int \<times> nat) list" where
  \<comment> \<open>Modelled from the spec: the diagnostics' count of pending attempts, by day.\<close>
  "pending_by_day bs = map (\<lambda>b. (b_date b, pending b)) (filter (\<lambda>b. 0 < pending b) bs)"

record rolling_row =
  r_date :: int
  window_days :: nat
  durable_sum :: nat
  arrivals_sum :: nat
  ratio :: "rat option"

fun rolling_from ::
  "nat \<Rightarrow> daily_bucket list \<Rightarrow> daily_bucket list \<Rightarrow> nat \<Rightarrow> nat \<Rightarrow> nat \<Rightarrow> rolling_row list" where
  \<comment> \<open>Modelled from the spec: the running sums of section 4.6. \<open>old\<close> are the buckets from
      the first day on, \<open>new\<close> those from day \<open>i\<close> on; \<open>ds\<close> and \<open>as\<close> are the sums over the
      window that ends the day before.\<close>
  "rolling_from W old [] i ds as = []"
| "rolling_from W old (b # new) i ds as =
     (let ds1 = ds + durable b; as1 = as + arrivals b;
          ds2 = (if W \<le> i then ds1 - durable (old ! (i - W)) else ds1);
          as2 = (if W \<le> i then as1 - arrivals (old ! (i - W)) else as1)
      in \<lparr>r_date = b_date b, window_days = W, durable_sum = ds2, arrivals_sum = as2,
          ratio = (if i + 1 < W \<or> as2 = 0 then None else Some (of_nat ds2 / of_nat as2))\<rparr>
         # rolling_from W old new (Suc i) ds2 as2)"

definition rolling :: "daily_bucket list \<Rightarrow> nat \<Rightarrow> rolling_row list" where
  \<comment> \<open>Modelled from the spec: the Rolling-Window Aggregator of section 4.6.\<close>
  "rolling bs W = rolling_from W bs bs 0 0 0"


section \<open>Objects in a store\<close>













section \<open>The wrapper: src/tests/bpi_2013/run.sh\<close>

definition input_file :: string where
  "input_file = ''raw/bpi_incidents_ledger.csv''"

definition output_dir :: string where
  "output_dir = ''submission/derived''"

definition cmd :: "string list" where
  \<comment> \<open>the words of \<open>cmd\<close>, the command line that runs the engine\<close>
  "cmd =
     [''python3'', ''occ_harness.py'', ''--ledger'', input_file, ''--horizon_days'', ''30'',
      ''--window_days'', ''90'', ''--output_dir'', output_dir]"

section \<open>Vocabulary of the properties\<close>

definition plain :: "jsval \<Rightarrow> bool" where
  \<comment> \<open>a field that is absent, null or a finite Number\<close>
  "plain v = (case v of JUndefined \<Rightarrow> True | JNull \<Rightarrow> True | JNum n \<Rightarrow> is_finite n | _ \<Rightarrow> False)"


definition finite_val :: "jsval \<Rightarrow> bool" where
  \<comment> \<open>a field that is null or a finite Number\<close>
  "finite_val v = (case v of JNull \<Rightarrow> True | JNum n \<Rightarrow> is_finite n | _ \<Rightarrow> False)"

definition exit_index :: "jsnum \<Rightarrow> nat \<Rightarrow> nat option" where
  \<comment> \<open>the index \<open>i - lag\<close> of the period a whole lag of at least one period points back to,
      when there is one\<close>
  "exit_index lag i =
     (case lag of
        Fin r \<Rightarrow> if of_int \<lfloor>r\<rfloor> = r \<and> 1 \<le> r \<and> r \<le> of_nat i then Some (i - nat \<lfloor>r\<rfloor>) else None
      | _ \<Rightarrow> None)"

definition lagged_value :: "obj list \<Rightarrow> jsnum \<Rightarrow> nat \<Rightarrow> string \<Rightarrow> jsval" where
  \<comment> \<open>the field k of the period that index i looks back to, \<open>null\<close> when there is none\<close>
  "lagged_value raw lag i k =
     (case exit_index lag i of None \<Rightarrow> JNull | Some j \<Rightarrow> get (raw ! j) k)"



section \<open>Sample inputs\<close>

definition num :: "rat \<Rightarrow> jsval" where
  "num r = JNum (Fin r)"

definition point_full :: obj where
  \<comment> \<open>\<open>{lambda: 3, mu_a: 10, q: 0.5, week: "W1", drift: 1, b_req: 0, capacity: 5}\<close>\<close>
  "point_full =
     [''lambda'' \<mapsto> num 3, ''mu_a'' \<mapsto> num 10, ''q'' \<mapsto> num (1 / 2), ''week'' \<mapsto> JStr ''W1'',
      ''drift'' \<mapsto> num 1, ''b_req'' \<mapsto> num 0, ''capacity'' \<mapsto> num 5]"

definition point_no_lambda :: obj where
  \<comment> \<open>\<open>{mu_a: 10, q: 0.5, drift: 1, b_req: 2, capacity: 5}\<close>\<close>
  "point_no_lambda =
     [''mu_a'' \<mapsto> num 10, ''q'' \<mapsto> num (1 / 2), ''drift'' \<mapsto> num 1, ''b_req'' \<mapsto> num 2,
      ''capacity'' \<mapsto> num 5]"

definition week_null :: obj where
  \<comment> \<open>\<open>{week: null, mu_a: 10, q: 0.5, mu_d: 5}\<close>\<close>
  "week_null = [''week'' \<mapsto> JNull, ''mu_a'' \<mapsto> num 10, ''q'' \<mapsto> num (1 / 2), ''mu_d'' \<mapsto> num 5]"

definition week_two :: obj where
  \<comment> \<open>\<open>{week: "W2", mu_a: 8, q: 0.5, mu_d: 4}\<close>\<close>
  "week_two = [''week'' \<mapsto> JStr ''W2'', ''mu_a'' \<mapsto> num 8, ''q'' \<mapsto> num (1 / 2), ''mu_d'' \<mapsto> num 4]"

definition sample_buckets :: "daily_bucket list" where
  \<comment> \<open>three days: one arrival and one durable attempt on the first, nothing afterwards\<close>
  "sample_buckets =
     [\<lparr>b_date = 1, arrivals = 1, attempts = 1, reopens = 0, durable = 1, bounced = 0, pending = 0\<rparr>,
      \<lparr>b_date = 2, arrivals = 0, attempts = 0, reopens = 0, durable = 0, bounced = 0, pending = 0\<rparr>,
      \<lparr>b_date = 3, arrivals = 0, attempts = 0, reopens = 0, durable = 0, bounced = 0, pending = 0\<rparr>]"



definition ev :: "string \<Rightarrow> event_type \<Rightarrow> int \<Rightarrow> raw_event" where
  "ev e t d = \<lparr>entity_id = e, event_type = t, event_date = d\<rparr>"

definition ledger_reopen :: "raw_event list" where
  \<comment> \<open>one case accepted on day 1, completed on day 5 and reopened on day 10; another
      case accepted on day 40, the last day of the ledger\<close>
  "ledger_reopen =
     [ev ''C2'' Accepted 1, ev ''C2'' Completed 5, ev ''C2'' Accepted 10, ev ''D'' Accepted 40]"

definition digit_of :: "char \<Rightarrow> nat option" where
  "digit_of c =
     map_of [(CHR ''0'', 0), (CHR ''1'', 1), (CHR ''2'', 2), (CHR ''3'', 3), (CHR ''4'', 4),
             (CHR ''5'', 5), (CHR ''6'', 6), (CHR ''7'', 7), (CHR ''8'', 8), (CHR ''9'', 9)] c"

fun undec :: "nat \<Rightarrow> string \<Rightarrow> nat option" where
  \<comment> \<open>the number that a string of decimal digits denotes, after the digits read so far\<close>
  "undec n [] = Some n"
| "undec n (c # cs) = (case digit_of c of Some d \<Rightarrow> undec (10 * n + d) cs | None \<Rightarrow> None)"

definition digits_to_number :: "string \<Rightarrow> jsnum" where
  "digits_to_number s =
     (case undec 0 s of
        Some n \<Rightarrow> if s \<noteq> [] \<and> int n \<le> 2 ^ 53 then Fin (of_nat n) else NaN
      | None \<Rightarrow> NaN)"

definition host_sample :: host where
  \<comment> \<open>A host for the examples. It converts strings of decimal digits and whole numbers
      as JavaScript does, and form fields hold the string assigned to them; no theorem
      depends on what it answers elsewhere.\<close>
  "host_sample =
     \<lparr>StringToNumber = (\<lambda>s. if s = [] then Fin 0 else digits_to_number s),
      FiniteToString = (\<lambda>r. if 0 < r \<and> of_int \<lfloor>r\<rfloor> = r then dec (nat \<lfloor>r\<rfloor>) else ''1e+21''),
      parseFloatString = digits_to_number,
      fieldValue = (\<lambda>i s. s)\<rparr>"




definition payload_no_horizon :: payload where
  \<comment> \<open>\<open>{series: [{lambda: 3, mu_a: 10, q: 0.5, week: "W1", drift: 1, b_req: 0,
      capacity: 5}]}\<close>: no \<open>horizon_days\<close>\<close>
  "payload_no_horizon = \<lparr>series_of = [point_full], props = Map.empty\<rparr>"

definition page_empty :: page where
  \<comment> \<open>the page before anything is loaded: every field empty\<close>
  "page_empty = \<lparr>global = initial_state, inputs = (\<lambda>i. [])\<rparr>"

definition page_loaded :: page where
  \<comment> \<open>a page with one point loaded, 14 in the horizon field and 7 in the period field\<close>
  "page_loaded =
     \<lparr>global = initial_state\<lparr>rawSeries := [point_full]\<rparr>,
      inputs = (\<lambda>i. if i = ''horizon'' then ''14'' else if i = ''periodDays'' then ''7'' else [])\<rparr>"

fun flag_value :: "string list \<Rightarrow> string \<Rightarrow> string option" where
  \<comment> \<open>the word that follows a flag on a command line\<close>
  "flag_value (w # v # ws) flag = (if w = flag then Some v else flag_value (v # ws) flag)"
| "flag_value ws flag = None"

section \<open>Facts about rounding\<close>

lemma ilog2_bounds:
  assumes "0 < x"
  shows "2 powi (ilog2 x) \<le> x \<and> x < 2 powi (ilog2 x + 1)"
proof -
  obtain p q where pq: "quotient_of x = (p, q)" by (cases "quotient_of x")
  have q: "0 < q" using pq by (rule quotient_of_denom_pos)
  have x: "x = of_int p / of_int q" using pq by (rule quotient_of_div)
  have p: "0 < p" using assms q x by (simp add: zero_less_divide_iff)
  define bp where "bp = bitlen p"
  define bq where "bq = bitlen q"
  have bp1: "1 \<le> bp" using p bitlen_eq_zero_iff[of p] bitlen_nonneg[of p] unfolding bp_def by linarith
  have bq1: "1 \<le> bq" using q bitlen_eq_zero_iff[of q] bitlen_nonneg[of q] unfolding bq_def by linarith
  have pb: "2 ^ nat (bp - 1) \<le> p" "p < 2 ^ nat bp"
    using bitlen_bounds[OF p] unfolding bp_def by auto
  have qb: "2 ^ nat (bq - 1) \<le> q" "q < 2 ^ nat bq"
    using bitlen_bounds[OF q] unfolding bq_def by auto
  have P1: "(2::rat) powi (bp - 1) \<le> of_int p"
  proof -
    have "(of_int (2 ^ nat (bp - 1)) :: rat) \<le> of_int p" using pb(1) by (simp only: of_int_le_iff)
    then show ?thesis using bp1 by (simp add: power_int_nonneg_exp)
  qed
  have P2: "of_int p < (2::rat) powi bp"
  proof -
    have "(of_int p :: rat) < of_int (2 ^ nat bp)" using pb(2) by (simp only: of_int_less_iff)
    then show ?thesis using bp1 by (simp add: power_int_nonneg_exp)
  qed
  have Q1: "(2::rat) powi (bq - 1) \<le> of_int q"
  proof -
    have "(of_int (2 ^ nat (bq - 1)) :: rat) \<le> of_int q" using qb(1) by (simp only: of_int_le_iff)
    then show ?thesis using bq1 by (simp add: power_int_nonneg_exp)
  qed
  have Q2: "of_int q < (2::rat) powi bq"
  proof -
    have "(of_int q :: rat) < of_int (2 ^ nat bq)" using qb(2) by (simp only: of_int_less_iff)
    then show ?thesis using bq1 by (simp add: power_int_nonneg_exp)
  qed
  have qpos: "(0::rat) < of_int q" using q by simp
  have upper: "x < 2 powi (bp - bq + 1)"
  proof -
    have "x * of_int q = of_int p" using x qpos by simp
    also have "\<dots> < 2 powi bp" by (rule P2)
    also have "\<dots> = 2 powi (bp - bq + 1) * (2::rat) powi (bq - 1)"
      by (simp add: power_int_add[symmetric])
    also have "\<dots> \<le> 2 powi (bp - bq + 1) * of_int q"
      using Q1 by (intro mult_left_mono) auto
    finally show ?thesis using qpos by simp
  qed
  have lower: "2 powi (bp - bq - 1) < x"
  proof -
    have "2 powi (bp - bq - 1) * of_int q < 2 powi (bp - bq - 1) * (2::rat) powi bq"
      using Q2 by (intro mult_strict_left_mono) auto
    also have "\<dots> = 2 powi (bp - 1)" by (simp add: power_int_add[symmetric])
    also have "\<dots> \<le> of_int p" by (rule P1)
    also have "\<dots> = x * of_int q" using x qpos by simp
    finally show ?thesis using qpos by simp
  qed
  have il: "ilog2 x = (if 2 powi (bp - bq) \<le> x then bp - bq else bp - bq - 1)"
    unfolding ilog2_def pq bp_def bq_def by (simp add: Let_def)
  show ?thesis
  proof (cases "2 powi (bp - bq) \<le> x")
    case True
    then show ?thesis using il upper by simp
  next
    case False
    then have "ilog2 x = bp - bq - 1" using il by simp
    then show ?thesis using lower False by simp
  qed
qed

lemma rnd_not_NaN: "rnd x \<noteq> NaN"
  by (simp add: rnd_def Let_def)

lemma expo_ge: "- 1022 \<le> expo x"
  by (simp add: expo_def)

lemma ulp_pos: "0 < ulp x"
  by (simp add: ulp_def)

lemma abs_lt_expo: 
  assumes "x \<noteq> 0" shows "\<bar>x\<bar> < 2 powi (expo x + 1)"
proof -
  have "\<bar>x\<bar> < 2 powi (ilog2 \<bar>x\<bar> + 1)" using ilog2_bounds[of "\<bar>x\<bar>"] assms by simp
  also have "\<dots> \<le> 2 powi (expo x + 1)"
    by (rule power_int_increasing) (simp_all add: expo_def)
  finally show ?thesis .
qed

lemma rhe_int: "round_half_even (of_int n) = n"
  by (simp add: round_half_even_def)

lemma rnd_exact:
  assumes "is_double x"
  shows "rnd x = Fin x"
proof (cases "x = 0")
  case True
  then show ?thesis by (simp add: rnd_def)
next
  case False
  define n where "n = \<lfloor>\<bar>x\<bar> / ulp x\<rfloor>"
  have n: "of_int n = \<bar>x\<bar> / ulp x" and e: "expo x \<le> 1023"
    using assms False unfolding is_double_def n_def by auto
  have r: "round_half_even (\<bar>x\<bar> / ulp x) = n"
    using rhe_int[of n] n by simp
  have xn: "\<bar>x\<bar> = of_int n * ulp x" using n ulp_pos[of x] by (simp add: field_simps)
  have n0: "n \<noteq> 0" using xn False by auto
  have nlt: "n < 2 ^ 53"
  proof -
    have "of_int n * ulp x < 2 powi (expo x + 1)" using abs_lt_expo[OF False] xn by simp
    also have "\<dots> = 2 powi (53 + (expo x - 52))"
      by (rule arg_cong[where f = "\<lambda>k. 2 powi k"]) linarith
    also have "\<dots> = 2 powi 53 * 2 powi (expo x - 52)" by (rule power_int_add) simp
    finally have "of_int n * ulp x < 2 powi 53 * ulp x" unfolding ulp_def .
    then have "(of_int n :: rat) < 2 powi 53" using ulp_pos[of x] by simp
    then have "(of_int n :: rat) < of_int (2 ^ 53)" by simp
    then show ?thesis by (simp only: of_int_less_iff)
  qed
  show ?thesis
    unfolding rnd_def using False r e n0 nlt xn by (auto simp: Let_def abs_if split: if_splits)
qed

lemma ilog2_nonneg: assumes "1 \<le> x" shows "0 \<le> ilog2 x"
proof -
  have "(2::rat) powi 0 \<le> x" using assms by simp
  also have "x < 2 powi (ilog2 x + 1)" using ilog2_bounds[of x] assms by simp
  finally have lt: "(2::rat) powi 0 < 2 powi (ilog2 x + 1)" .
  show ?thesis
  proof (rule ccontr)
    assume "\<not> 0 \<le> ilog2 x"
    then have "ilog2 x + 1 \<le> 0" by simp
    then have "(2::rat) powi (ilog2 x + 1) \<le> 2 powi 0" by (rule power_int_increasing) simp
    then show False using lt by simp
  qed
qed

lemma rhe_ge_floor: "\<lfloor>y\<rfloor> \<le> round_half_even y"
  by (simp add: round_half_even_def Let_def)

lemma int_is_double:
  assumes "\<bar>k\<bar> \<le> 2 ^ 53"
  shows "is_double (of_int k)"
proof (cases "k = 0")
  case True
  then show ?thesis by (simp add: is_double_def)
next
  case False
  define x :: rat where "x = of_int k"
  define a :: rat where "a = \<bar>x\<bar>"
  have a: "a = of_int \<bar>k\<bar>" by (simp add: a_def x_def)
  have a1: "1 \<le> a" using False unfolding a by simp
  have il0: "0 \<le> ilog2 a" using ilog2_nonneg[OF a1] .
  have ex: "expo x = ilog2 a" using il0 by (simp add: expo_def a_def)
  have "(2::rat) powi ilog2 a \<le> a" using ilog2_bounds[of a] a1 by simp
  also have "a \<le> of_int (2 ^ 53)" unfolding a using assms by (simp only: of_int_le_iff)
  also have "\<dots> = 2 powi 53" by simp
  finally have "(2::rat) powi ilog2 a \<le> 2 powi 53" .
  then have il53: "ilog2 a \<le> 53" by (rule power_int_le_imp_le_exp[rotated]) simp_all
  have "\<exists>m. of_int m = a / ulp x"
  proof (cases "ilog2 a \<le> 52")
    case True
    have "ulp x = 2 powi (- (52 - ilog2 a))" by (simp add: ulp_def ex)
    also have "\<dots> = 1 / 2 powi (52 - ilog2 a)" by (rule power_int_minus_divide)
    also have "\<dots> = 1 / 2 ^ nat (52 - ilog2 a)" using True by (simp add: power_int_nonneg_exp)
    finally have "a / ulp x = of_int (\<bar>k\<bar> * 2 ^ nat (52 - ilog2 a))" by (simp add: a)
    then show ?thesis by metis
  next
    case False
    then have i: "ilog2 a = 53" using il53 by simp
    have "(2::rat) powi 53 \<le> a" using ilog2_bounds[of a] a1 i by simp
    then have "(of_int (2 ^ 53) :: rat) \<le> of_int \<bar>k\<bar>" unfolding a by simp
    then have "2 ^ 53 \<le> \<bar>k\<bar>" by (simp only: of_int_le_iff)
    then have k: "\<bar>k\<bar> = 2 ^ 53" using assms by simp
    have "ulp x = 2" by (simp add: ulp_def ex i)
    then have "a / ulp x = of_int (2 ^ 52)" unfolding a k by simp
    then show ?thesis by metis
  qed
  then obtain m where m: "of_int m = a / ulp x" ..
  then have "of_int \<lfloor>a / ulp x\<rfloor> = a / ulp x" by (metis floor_of_int)
  moreover have "expo x \<le> 1023" using ex il53 by simp
  ultimately show ?thesis unfolding is_double_def a_def x_def by simp
qed

lemma rnd_le_minus_one:
  assumes "x \<le> - 1"
  shows "rnd x = NInf \<or> (\<exists>y. rnd x = Fin y \<and> y < 0)"
proof -
  have x0: "x \<noteq> 0" "\<not> 0 < x" using assms by auto
  have a1: "1 \<le> \<bar>x\<bar>" using assms by simp
  have ex: "expo x = ilog2 \<bar>x\<bar>" using ilog2_nonneg[OF a1] by (simp add: expo_def)
  have "(2::rat) powi 52 * ulp x = 2 powi (52 + (expo x - 52))"
    unfolding ulp_def by (rule power_int_add[symmetric]) simp
  also have "\<dots> = 2 powi ilog2 \<bar>x\<bar>" unfolding ex
    by (rule arg_cong[where f = "\<lambda>k. 2 powi k"]) linarith
  also have "\<dots> \<le> \<bar>x\<bar>" using ilog2_bounds[of "\<bar>x\<bar>"] a1 by simp
  finally have "(2::rat) powi 52 \<le> \<bar>x\<bar> / ulp x" using ulp_pos[of x] by (simp add: field_simps)
  then have "(of_int (2 ^ 52) :: rat) \<le> \<bar>x\<bar> / ulp x" by simp
  then have "2 ^ 52 \<le> \<lfloor>\<bar>x\<bar> / ulp x\<rfloor>" by (simp only: le_floor_iff)
  moreover have "(0::int) < 2 ^ 52" by simp
  ultimately have n: "0 < round_half_even (\<bar>x\<bar> / ulp x)"
    using rhe_ge_floor[of "\<bar>x\<bar> / ulp x"] by linarith
  then have "0 < of_int (round_half_even (\<bar>x\<bar> / ulp x)) * ulp x"
    using ulp_pos[of x] by simp
  then show ?thesis unfolding rnd_def using x0 n by (simp add: Let_def)
qed

section \<open>computeSeriesMetrics: clamps and guards\<close>

lemma num_neg_finite: "is_finite y \<Longrightarrow> is_finite (num_neg y)"
  by (cases y) auto

lemma num_add_not_NaN: "x \<noteq> NaN \<Longrightarrow> is_finite y \<Longrightarrow> num_add x y \<noteq> NaN"
  by (cases x; cases y) (auto simp: num_add_def rnd_not_NaN)

lemma num_sub_not_NaN: "x \<noteq> NaN \<Longrightarrow> is_finite y \<Longrightarrow> num_sub x y \<noteq> NaN"
  unfolding num_sub_def by (rule num_add_not_NaN) (auto intro: num_neg_finite)

lemma num_mul_not_NaN: "is_finite x \<Longrightarrow> is_finite y \<Longrightarrow> num_mul x y \<noteq> NaN"
  by (cases x; cases y) (auto simp: num_mul_def rnd_not_NaN)

lemma is_finite_not_NaN: "is_finite x \<Longrightarrow> x \<noteq> NaN"
  by (cases x) auto

lemma math_max_zero_cases: "math_max (Fin 0) y = NaN \<or> num_ge (math_max (Fin 0) y) (Fin 0)"
  by (cases y) (auto simp: math_max_def num_ge_def num_lt_def)

lemma math_max_zero_ge: "y \<noteq> NaN \<Longrightarrow> num_ge (math_max (Fin 0) y) (Fin 0)"
  by (cases y) (auto simp: math_max_def num_ge_def num_lt_def)

lemma plain_nullish:
  "plain v \<Longrightarrow> \<exists>n. nullish v zero = JNum n \<and> is_finite n"
  by (cases v) (auto simp: plain_def nullish_def zero_def)

lemma metric_cEff_cases:
  "metric_cEff H point = NaN \<or> num_ge (metric_cEff H point) (Fin 0)"
  unfolding metric_cEff_def Math_max_def zero_def by (simp add: math_max_zero_cases)

lemma metric_exceedance_cases:
  "metric_exceedance H point = NaN \<or> num_ge (metric_exceedance H point) (Fin 0)"
  unfolding metric_exceedance_def Math_max_def zero_def by (simp add: math_max_zero_cases)

lemma metric_cEff_plain:
  assumes "plain (get point ''capacity'')" "plain (get point ''drift'')"
  shows "num_ge (metric_cEff H point) (Fin 0)"
proof -
  obtain c where c: "nullish (get point ''capacity'') zero = JNum c" "is_finite c"
    using plain_nullish[OF assms(1)] by blast
  obtain d where d: "nullish (get point ''drift'') zero = JNum d" "is_finite d"
    using plain_nullish[OF assms(2)] by blast
  have "num_sub c d \<noteq> NaN" using c(2) d(2) by (intro num_sub_not_NaN is_finite_not_NaN)
  then show ?thesis
    using c d unfolding metric_cEff_def Math_max_def js_minus_def zero_def
    by (simp add: math_max_zero_ge)
qed

lemma metric_exceedance_plain:
  assumes "plain (get point ''capacity'')" "plain (get point ''drift'')"
    "plain (get point ''b_req'')" "get point ''lambda'' = JNum l" "is_finite l"
  shows "num_ge (metric_exceedance H point) (Fin 0)"
proof -
  obtain c where c: "nullish (get point ''capacity'') zero = JNum c" "is_finite c"
    using plain_nullish[OF assms(1)] by blast
  obtain d where d: "nullish (get point ''drift'') zero = JNum d" "is_finite d"
    using plain_nullish[OF assms(2)] by blast
  obtain b where b: "nullish (get point ''b_req'') zero = JNum b" "is_finite b"
    using plain_nullish[OF assms(3)] by blast
  have 1: "num_mul l b \<noteq> NaN" using assms(5) b(2) by (rule num_mul_not_NaN)
  have 2: "num_add d (num_mul l b) \<noteq> NaN"
    using 1 d(2) by (cases d; cases "num_mul l b") (auto simp: num_add_def rnd_not_NaN)
  have 3: "num_sub (num_add d (num_mul l b)) c \<noteq> NaN" using 2 c(2) by (rule num_sub_not_NaN)
  show ?thesis
    using 3 c d b assms(4)
    unfolding metric_exceedance_def Math_max_def js_minus_def js_plus_def js_times_def zero_def
    by (simp add: math_max_zero_ge)
qed

lemma metric_bound_guard:
  "\<not> ToBoolean (get point ''b_req'') \<Longrightarrow> metric_bound H point = Fin 0"
  by (simp add: metric_bound_def)

lemma computeSeriesMetrics_fields:
  "get (computeSeriesMetrics H point) ''mu_d'' = JNum (metric_durable H point)"
  "get (computeSeriesMetrics H point) ''return_work'' = JNum (metric_returnWork H point)"
  "get (computeSeriesMetrics H point) ''c_eff'' = JNum (metric_cEff H point)"
  "get (computeSeriesMetrics H point) ''mu_bar'' = JNum (metric_bound H point)"
  "get (computeSeriesMetrics H point) ''exceedance'' = JNum (metric_exceedance H point)"
  by (simp_all add: computeSeriesMetrics_def get_def)

text \<open>
  C9. The effective capacity \<open>c_eff\<close> and the exceedance are clamped by \<open>Math.max(0, _)\<close>:
  each is NaN or at least 0, and at least 0 as soon as the fields it reads are finite
  numbers (capacity, drift and b_req may also be absent or null, lambda may be null).
  When \<open>b_req\<close> is falsy (zero, absent, null, NaN) the bound \<open>mu_bar\<close> is 0: nothing is
  divided.
\<close>

theorem computeSeriesMetrics_clamped:
  "get (computeSeriesMetrics H point) ''c_eff'' = JNum (metric_cEff H point)
   \<and> get (computeSeriesMetrics H point) ''exceedance'' = JNum (metric_exceedance H point)
   \<and> get (computeSeriesMetrics H point) ''mu_bar'' = JNum (metric_bound H point)
   \<and> (metric_cEff H point = NaN \<or> num_ge (metric_cEff H point) (Fin 0))
   \<and> (metric_exceedance H point = NaN \<or> num_ge (metric_exceedance H point) (Fin 0))
   \<and> (plain (get point ''capacity'') \<and> plain (get point ''drift'')
        \<longrightarrow> num_ge (metric_cEff H point) (Fin 0))
   \<and> (plain (get point ''capacity'') \<and> plain (get point ''drift'') \<and> plain (get point ''b_req'')
        \<and> finite_val (get point ''lambda'')
        \<longrightarrow> num_ge (metric_exceedance H point) (Fin 0))
   \<and> (\<not> ToBoolean (get point ''b_req'') \<longrightarrow> metric_bound H point = Fin 0)"
proof -
  have ex: "num_ge (metric_exceedance H point) (Fin 0)"
    if p: "plain (get point ''capacity'')" "plain (get point ''drift'')"
      "plain (get point ''b_req'')" and l: "finite_val (get point ''lambda'')"
  proof (cases "get point ''lambda''")
    case (JNum n)
    then show ?thesis using p l metric_exceedance_plain[of point n H] by (simp add: finite_val_def)
  next
    case JNull
    obtain c where c: "nullish (get point ''capacity'') zero = JNum c" "is_finite c"
      using plain_nullish[OF p(1)] by blast
    obtain d where d: "nullish (get point ''drift'') zero = JNum d" "is_finite d"
      using plain_nullish[OF p(2)] by blast
    obtain b where b: "nullish (get point ''b_req'') zero = JNum b" "is_finite b"
      using plain_nullish[OF p(3)] by blast
    have 1: "num_mul (Fin 0) b \<noteq> NaN" using b(2) by (intro num_mul_not_NaN) simp
    have 2: "num_add d (num_mul (Fin 0) b) \<noteq> NaN"
      using 1 d(2) by (cases d; cases "num_mul (Fin 0) b") (auto simp: num_add_def rnd_not_NaN)
    have 3: "num_sub (num_add d (num_mul (Fin 0) b)) c \<noteq> NaN"
      using 2 c(2) by (rule num_sub_not_NaN)
    show ?thesis
      using 3 c d b JNull
      unfolding metric_exceedance_def Math_max_def js_minus_def js_plus_def js_times_def zero_def
      by (simp add: math_max_zero_ge)
  qed (use l in \<open>simp_all add: finite_val_def\<close>)
  show ?thesis
    using ex metric_cEff_cases[of H point] metric_exceedance_cases[of H point]
      metric_cEff_plain[of point H] metric_bound_guard[of point H]
    by (simp add: computeSeriesMetrics_fields)
qed

theorem computeSeriesMetrics_clamped_witness:
  "\<forall>H. plain (get point_full ''capacity'') \<and> plain (get point_full ''drift'')
     \<and> plain (get point_full ''b_req'') \<and> finite_val (get point_full ''lambda'')
     \<and> \<not> ToBoolean (get point_full ''b_req'')
     \<and> num_ge (metric_cEff H point_full) (Fin 0)
     \<and> num_ge (metric_exceedance H point_full) (Fin 0)
     \<and> metric_bound H point_full = Fin 0"
proof
  fix H
  have h: "plain (get point_full ''capacity'')" "plain (get point_full ''drift'')"
    "plain (get point_full ''b_req'')" "finite_val (get point_full ''lambda'')"
    "\<not> ToBoolean (get point_full ''b_req'')"
    by (simp_all add: point_full_def get_def plain_def finite_val_def num_def)
  show "plain (get point_full ''capacity'') \<and> plain (get point_full ''drift'')
     \<and> plain (get point_full ''b_req'') \<and> finite_val (get point_full ''lambda'')
     \<and> \<not> ToBoolean (get point_full ''b_req'')
     \<and> num_ge (metric_cEff H point_full) (Fin 0)
     \<and> num_ge (metric_exceedance H point_full) (Fin 0)
     \<and> metric_bound H point_full = Fin 0"
    using h computeSeriesMetrics_clamped[of H point_full] by blast
qed

theorem exceedance_without_lambda:
  "\<forall>H. get (computeSeriesMetrics H point_no_lambda) ''exceedance'' = JNum NaN
     \<and> \<not> num_ge NaN (Fin 0)"
proof
  fix H
  have "metric_exceedance H point_no_lambda = NaN"
    by (simp add: metric_exceedance_def point_no_lambda_def get_def num_def zero_def nullish_def
        js_times_def js_plus_def js_minus_def Math_max_def num_mul_def num_add_def num_sub_def
        math_max_def)
  then show "get (computeSeriesMetrics H point_no_lambda) ''exceedance'' = JNum NaN
     \<and> \<not> num_ge NaN (Fin 0)"
    by (simp add: computeSeriesMetrics_fields(5) num_ge_def)
qed

section \<open>buildDerivedSeries: shape and lag\<close>

lemma lagPeriods_cases:
  "lagPeriods_of H h p = NaN \<or> lagPeriods_of H h p = PInf
   \<or> (\<exists>k\<ge>1. lagPeriods_of H h p = Fin (of_int k))"
proof (cases "js_divide H h p")
  case (Fin r)
  show ?thesis
  proof (cases "1 < \<lceil>r\<rceil>")
    case True
    then have "(1::rat) < of_int \<lceil>r\<rceil>" by linarith
    moreover have "\<not> (- 1 < r \<and> r < 0)" using True by linarith
    ultimately have "lagPeriods_of H h p = Fin (of_int \<lceil>r\<rceil>)"
      by (simp add: lagPeriods_of_def Fin math_max_def num_lt_def)
    then show ?thesis using True by (intro disjI2) auto
  next
    case False
    then have "\<not> (1::rat) < of_int \<lceil>r\<rceil>" by linarith
    then have "lagPeriods_of H h p = Fin 1"
      by (auto simp: lagPeriods_of_def Fin math_max_def num_lt_def)
    then show ?thesis by (intro disjI2) (auto intro: exI[of _ 1])
  qed
next
  case NZero
  then have "lagPeriods_of H h p = Fin 1" by (simp add: lagPeriods_of_def math_max_def num_lt_def)
  then show ?thesis by (intro disjI2) (auto intro: exI[of _ 1])
next
  case NInf
  then have "lagPeriods_of H h p = Fin 1" by (simp add: lagPeriods_of_def math_max_def num_lt_def)
  then show ?thesis by (intro disjI2) (auto intro: exI[of _ 1])
qed (simp_all add: lagPeriods_of_def math_max_def num_lt_def)

lemma exit_index_lt: "exit_index lag i = Some j \<Longrightarrow> j < i"
  by (cases lag) (auto simp: exit_index_def split: if_splits)

lemma lagged_whole:
  assumes k: "1 \<le> k" and i: "int i \<le> 2 ^ 53" and len: "i < length raw"
  shows "lagged raw (num_sub (Fin (of_nat i)) (Fin (of_int k))) key
         = Inr (lagged_value raw (Fin (of_int k)) i key)"
proof (cases "k \<le> int i")
  case True
  define j where "j = nat (int i - k)"
  have j: "int j = int i - k" "j < i" "j < length raw" using True k len by (auto simp: j_def)
  have ex: "exit_index (Fin (of_int k)) i = Some j"
    using True k by (simp add: exit_index_def j_def nat_diff_distrib')
  have sub: "num_sub (Fin (of_nat i)) (Fin (of_int k)) = Fin (of_nat j)"
  proof (cases "int i = k")
    case True
    then have "j = 0" by (simp add: j_def)
    then show ?thesis using k True by (simp add: num_sub_def num_add_def)
  next
    case False
    have ne: "(of_nat i :: rat) \<noteq> of_int k" using False
      by (metis of_int_of_nat_eq of_int_eq_iff)
    have k0: "(of_int k :: rat) \<noteq> 0" using k by simp
    have step: "num_sub (Fin (of_nat i)) (Fin (of_int k)) = rnd (of_nat i - of_int k)"
      using k0 ne by (simp add: num_sub_def num_add_def)
    have "(of_int (int j) :: rat) = of_int (int i - k)" using j(1) by (simp only:)
    then have eq: "(of_nat i :: rat) - of_int k = of_nat j" by simp
    have "\<bar>int j\<bar> \<le> 2 ^ 53" using j(2) i by simp
    then have "is_double (of_int (int j))" by (rule int_is_double)
    then have "is_double (of_nat j)" by simp
    then have "rnd (of_nat j) = Fin (of_nat j)" by (rule rnd_exact)
    then show ?thesis by (simp only: step eq)
  qed
  have "index_of (Fin (of_nat j)) = Some j" by (simp add: index_of_def)
  then show ?thesis
    using j ex by (simp add: lagged_def sub num_ge_def num_lt_def array_get_def lagged_value_def)
next
  case False
  then have neg: "(of_nat i :: rat) - of_int k \<le> - 1"
  proof -
    have "int i - k \<le> - 1" using False by simp
    then have "(of_int (int i - k) :: rat) \<le> of_int (- 1)" by (simp only: of_int_le_iff)
    then show ?thesis by simp
  qed
  have ex: "exit_index (Fin (of_int k)) i = None"
  proof -
    have "\<not> (of_int k :: rat) \<le> of_nat i" using False
      by (metis of_int_of_nat_eq of_int_le_iff)
    then show ?thesis by (simp add: exit_index_def)
  qed
  have sub: "num_sub (Fin (of_nat i)) (Fin (of_int k)) = rnd (of_nat i - of_int k)"
    using k neg by (auto simp: num_sub_def num_add_def)
  have "\<not> num_ge (rnd (of_nat i - of_int k)) (Fin 0)"
    using rnd_le_minus_one[OF neg] by (auto simp: num_ge_def num_lt_def)
  then show ?thesis by (simp add: lagged_def sub ex lagged_value_def)
qed

lemma lagged_lagPeriods:
  assumes i: "int i \<le> 2 ^ 53" and len: "i < length raw"
  shows "lagged raw (num_sub (Fin (of_nat i)) (lagPeriods_of H h p)) key
         = Inr (lagged_value raw (lagPeriods_of H h p) i key)"
proof -
  consider "lagPeriods_of H h p = NaN" | "lagPeriods_of H h p = PInf"
    | k where "1 \<le> k" "lagPeriods_of H h p = Fin (of_int k)"
    using lagPeriods_cases[of H h p] by blast
  then show ?thesis
  proof cases
    case 1
    then show ?thesis
      by (simp add: lagged_def num_sub_def num_add_def num_ge_def lagged_value_def exit_index_def)
  next
    case 2
    then show ?thesis
      by (simp add: lagged_def num_sub_def num_add_def num_ge_def num_lt_def lagged_value_def
          exit_index_def)
  next
    case 3
    then show ?thesis using lagged_whole[OF 3(1) i len] by simp
  qed
qed

lemma derive_lagPeriods:
  assumes "int i \<le> 2 ^ 53" "i < length raw"
  shows "derive raw (lagPeriods_of H h p) pt i
         = Inr (pt(''mu_d_exit'' \<mapsto> lagged_value raw (lagPeriods_of H h p) i ''mu_d'',
                  ''cohort_week'' \<mapsto> lagged_value raw (lagPeriods_of H h p) i ''week''))"
  by (simp add: derive_def Let_def lagged_lagPeriods[OF assms])

lemma map_idx_total:
  assumes "\<And>n. n < length xs \<Longrightarrow> f (xs ! n) (i + n) = Inr (g (xs ! n) (i + n))"
  shows "map_idx f xs i = Inr (map (\<lambda>(x, n). g x n) (zip xs [i..<i + length xs]))"
  using assms
proof (induction xs arbitrary: i)
  case Nil
  then show ?case by simp
next
  case (Cons x xs)
  have hd: "f x i = Inr (g x i)" using Cons.prems[of 0] by simp
  have tl: "map_idx f xs (Suc i) = Inr (map (\<lambda>(x, n). g x n) (zip xs [Suc i..<Suc i + length xs]))"
  proof (rule Cons.IH)
    fix n assume "n < length xs"
    then show "f (xs ! n) (Suc i + n) = Inr (g (xs ! n) (Suc i + n))"
      using Cons.prems[of "Suc n"] by simp
  qed
  have "[i..<i + length (x # xs)] = i # [Suc i..<Suc i + length xs]"
    by (subst upt_rec) simp
  then show ?case using hd tl by simp
qed

lemma buildDerivedSeries_result:
  assumes len: "length raw < 2 ^ 32"
    and go: "\<not> (raw = [] \<or> \<not> ToBoolean p \<or> num_le (ToNumber H p) (Fin 0))"
  shows "buildDerivedSeries H st raw h p
         = (st\<lparr>lagPeriods := lagPeriods_of H h p\<rparr>,
            Inr (map (\<lambda>(pt, i). pt(''mu_d_exit'' \<mapsto> lagged_value raw (lagPeriods_of H h p) i ''mu_d'',
                  ''cohort_week'' \<mapsto> lagged_value raw (lagPeriods_of H h p) i ''week''))
                 (zip raw [0..<length raw])))"
proof -
  have "map_idx (derive raw (lagPeriods_of H h p)) raw 0
        = Inr (map (\<lambda>(pt, i). pt(''mu_d_exit'' \<mapsto> lagged_value raw (lagPeriods_of H h p) i ''mu_d'',
                  ''cohort_week'' \<mapsto> lagged_value raw (lagPeriods_of H h p) i ''week''))
                 (zip raw [0..<0 + length raw]))"
  proof (rule map_idx_total)
    fix n assume n: "n < length raw"
    have "int n \<le> 2 ^ 53" using n len by simp
    then show "derive raw (lagPeriods_of H h p) (raw ! n) (0 + n)
       = Inr ((raw ! n)(''mu_d_exit'' \<mapsto> lagged_value raw (lagPeriods_of H h p) (0 + n) ''mu_d'',
                  ''cohort_week'' \<mapsto> lagged_value raw (lagPeriods_of H h p) (0 + n) ''week''))"
      using derive_lagPeriods[of n raw H h p "raw ! n"] n by simp
  qed
  then show ?thesis using go by (simp add: buildDerivedSeries_def Let_def)
qed

lemma lagPeriods_ge_one:
  "lagPeriods_of H h p = NaN \<or> num_ge (lagPeriods_of H h p) (Fin 1)"
  using lagPeriods_cases[of H h p] by (auto simp: num_ge_def num_lt_def)

lemma lagPeriods_zero_horizon:
  assumes "is_zero (ToNumber H h)" "num_lt (Fin 0) (ToNumber H p)"
  shows "lagPeriods_of H h p = Fin 1"
  using assms
  by (cases "ToNumber H h"; cases "ToNumber H p")
    (auto simp: lagPeriods_of_def js_divide_def num_div_def num_lt_def math_max_def)

lemma guard_number:
  "(\<not> ToBoolean (JNum n) \<or> num_le (ToNumber H (JNum n)) (Fin 0)) = (\<not> num_lt (Fin 0) n)"
  by (cases n) (auto simp: num_le_def num_lt_def)

lemma exit_index_None_iff:
  "(exit_index (lagPeriods_of H h p) i = None) = (\<not> num_le (lagPeriods_of H h p) (Fin (of_nat i)))"
proof -
  consider "lagPeriods_of H h p = NaN" | "lagPeriods_of H h p = PInf"
    | k where "1 \<le> k" "lagPeriods_of H h p = Fin (of_int k)"
    using lagPeriods_cases[of H h p] by blast
  then show ?thesis
  proof cases
    case 3
    have "(1::rat) \<le> of_int k" using 3(1) by simp
    then show ?thesis using 3 by (auto simp: exit_index_def num_le_def num_lt_def)
  qed (simp_all add: exit_index_def num_le_def num_lt_def)
qed

lemma rolling_from_length: "length (rolling_from W old new i ds as) = length new"
  by (induction new arbitrary: i ds as) (simp_all add: Let_def)

lemma rolling_from_null:
  "n < length new \<Longrightarrow>
   (i + n + 1 < W \<longrightarrow> ratio (rolling_from W old new i ds as ! n) = None)
   \<and> (arrivals_sum (rolling_from W old new i ds as ! n) = 0
        \<longrightarrow> ratio (rolling_from W old new i ds as ! n) = None)
   \<and> (\<forall>x. ratio (rolling_from W old new i ds as ! n) = Some x
        \<longrightarrow> x = of_nat (durable_sum (rolling_from W old new i ds as ! n))
                / of_nat (arrivals_sum (rolling_from W old new i ds as ! n)))"
proof (induction new arbitrary: i ds as n)
  case Nil
  then show ?case by simp
next
  case (Cons b new)
  show ?case
  proof (cases n)
    case 0
    then show ?thesis by (simp add: Let_def)
  next
    case (Suc m)
    then have "m < length new" using Cons.prems by simp
    from Cons.IH[OF this, of "Suc i"] show ?thesis using Suc by (simp add: Let_def)
  qed
qed

lemma rnd_one: "rnd 1 = Fin 1"
proof -
  have "is_double (of_int 1)" by (rule int_is_double) simp
  then show ?thesis using rnd_exact[of 1] by simp
qed

lemma rnd_minus_one: "rnd (- 1) = Fin (- 1)"
proof -
  have "is_double (of_int (- 1))" by (rule int_is_double) simp
  then show ?thesis using rnd_exact[of "- 1"] by simp
qed

lemma lagPeriods_7_7: "lagPeriods_of H (num 7) (num 7) = Fin 1"
  by (simp add: lagPeriods_of_def js_divide_def num_def num_div_def math_max_def num_lt_def rnd_one)

lemma lag_examples:
  "math_max (Fin 1) (math_ceil (num_div (Fin 30) (Fin 7))) = Fin 5"
  "math_max (Fin 1) (math_ceil (num_div (Fin 14) (Fin 7))) = Fin 2"
  "math_max (Fin 1) (math_ceil (num_div (Fin 0) (Fin 7))) = Fin 1"
  by code_simp+

lemma lagged_value_whole:
  "lagged_value raw (Fin (of_int k)) i key
   = (if 1 \<le> k \<and> k \<le> int i then get (raw ! (i - nat k)) key else JNull)"
proof -
  have "((of_int k :: rat) \<le> of_nat i) = (k \<le> int i)"
    by (metis of_int_of_nat_eq of_int_le_iff)
  then show ?thesis by (simp add: lagged_value_def exit_index_def)
qed

lemma lagged_value_none:
  "lagged_value raw NaN i key = JNull" "lagged_value raw PInf i key = JNull"
  by (simp_all add: lagged_value_def exit_index_def)

text \<open>
  C10. \<open>buildDerivedSeries\<close> returns the empty list for an empty series and for a
  \<open>periodDays\<close> that is falsy or at most 0 (for a Number: exactly when it is not
  positive). Otherwise, on a series within the length of a JavaScript array, the output
  has the length of the input and the lag assigned to \<open>state.lagPeriods\<close> is
  \<open>Math.max(1, Math.ceil(horizonDays / periodDays))\<close>: NaN, infinite or a whole number k
  of at least 1, and 1 when \<open>horizonDays\<close> is 0. Element i of the output is element i of
  the input with \<open>mu_d_exit\<close> and \<open>cohort_week\<close> set: to \<open>null\<close> when \<open>i < k\<close> or the lag is
  NaN or infinite, and to the \<open>mu_d\<close> and \<open>week\<close> of element \<open>i - k\<close>, a strictly earlier
  index, when \<open>k \<le> i\<close>.
\<close>

theorem buildDerivedSeries_shape:
  assumes "length raw < 2 ^ 32"
    and "L = math_max (Fin 1) (math_ceil (num_div (ToNumber H h) (ToNumber H p)))"
  shows "(raw = [] \<or> \<not> ToBoolean p \<or> num_le (ToNumber H p) (Fin 0)
            \<longrightarrow> buildDerivedSeries H st raw h p = (st, Inr []))
       \<and> (\<not> (raw = [] \<or> \<not> ToBoolean p \<or> num_le (ToNumber H p) (Fin 0))
            \<longrightarrow> (\<exists>out. buildDerivedSeries H st raw h p = (st\<lparr>lagPeriods := L\<rparr>, Inr out)
                 \<and> length out = length raw
                 \<and> (\<forall>i<length raw.
                       (\<exists>x y. out ! i = (raw ! i)(''mu_d_exit'' \<mapsto> x, ''cohort_week'' \<mapsto> y))
                     \<and> (L = NaN \<or> L = PInf
                          \<longrightarrow> get (out ! i) ''mu_d_exit'' = JNull
                              \<and> get (out ! i) ''cohort_week'' = JNull)
                     \<and> (\<forall>k. L = Fin (of_int k) \<and> int i < k
                          \<longrightarrow> get (out ! i) ''mu_d_exit'' = JNull
                              \<and> get (out ! i) ''cohort_week'' = JNull)
                     \<and> (\<forall>k. L = Fin (of_int k) \<and> k \<le> int i
                          \<longrightarrow> i - nat k < i
                              \<and> get (out ! i) ''mu_d_exit'' = get (raw ! (i - nat k)) ''mu_d''
                              \<and> get (out ! i) ''cohort_week'' = get (raw ! (i - nat k)) ''week''))))
       \<and> (L = NaN \<or> L = PInf \<or> (\<exists>k\<ge>1. L = Fin (of_int k)))
       \<and> (is_zero (ToNumber H h) \<and> num_lt (Fin 0) (ToNumber H p) \<longrightarrow> L = Fin 1)
       \<and> (\<forall>n. p = JNum n
             \<longrightarrow> (\<not> ToBoolean p \<or> num_le (ToNumber H p) (Fin 0)) = (\<not> num_lt (Fin 0) n))"
proof -
  have L: "L = lagPeriods_of H h p" using assms(2) by (simp add: lagPeriods_of_def js_divide_def)
  let ?out = "map (\<lambda>(pt, i). pt(''mu_d_exit'' \<mapsto> lagged_value raw L i ''mu_d'',
                  ''cohort_week'' \<mapsto> lagged_value raw L i ''week'')) (zip raw [0..<length raw])"
  have cases: "L = NaN \<or> L = PInf \<or> (\<exists>k\<ge>1. L = Fin (of_int k))"
    unfolding L by (rule lagPeriods_cases)
  have A: "buildDerivedSeries H st raw h p = (st, Inr [])"
    if "raw = [] \<or> \<not> ToBoolean p \<or> num_le (ToNumber H p) (Fin 0)"
    using that by (auto simp: buildDerivedSeries_def)
  have each: "(\<exists>x y. ?out ! i = (raw ! i)(''mu_d_exit'' \<mapsto> x, ''cohort_week'' \<mapsto> y))
                     \<and> (L = NaN \<or> L = PInf
                          \<longrightarrow> get (?out ! i) ''mu_d_exit'' = JNull
                              \<and> get (?out ! i) ''cohort_week'' = JNull)
                     \<and> (\<forall>k. L = Fin (of_int k) \<and> int i < k
                          \<longrightarrow> get (?out ! i) ''mu_d_exit'' = JNull
                              \<and> get (?out ! i) ''cohort_week'' = JNull)
                     \<and> (\<forall>k. L = Fin (of_int k) \<and> k \<le> int i
                          \<longrightarrow> i - nat k < i
                              \<and> get (?out ! i) ''mu_d_exit'' = get (raw ! (i - nat k)) ''mu_d''
                              \<and> get (?out ! i) ''cohort_week'' = get (raw ! (i - nat k)) ''week'')"
    if i: "i < length raw" for i
  proof -
    have el: "?out ! i = (raw ! i)(''mu_d_exit'' \<mapsto> lagged_value raw L i ''mu_d'',
                  ''cohort_week'' \<mapsto> lagged_value raw L i ''week'')"
      using i by simp
    have val: "get (?out ! i) ''mu_d_exit'' = lagged_value raw L i ''mu_d''"
      "get (?out ! i) ''cohort_week'' = lagged_value raw L i ''week''"
      unfolding el by (simp_all add: get_def)
    have none: "get (?out ! i) ''mu_d_exit'' = JNull \<and> get (?out ! i) ''cohort_week'' = JNull"
      if "L = NaN \<or> L = PInf"
      using that val by (auto simp: lagged_value_none)
    have below: "get (?out ! i) ''mu_d_exit'' = JNull \<and> get (?out ! i) ''cohort_week'' = JNull"
      if "L = Fin (of_int k)" "int i < k" for k
      using that val by (simp add: lagged_value_whole)
    have above: "i - nat k < i
                 \<and> get (?out ! i) ''mu_d_exit'' = get (raw ! (i - nat k)) ''mu_d''
                 \<and> get (?out ! i) ''cohort_week'' = get (raw ! (i - nat k)) ''week''"
      if k: "L = Fin (of_int k)" "k \<le> int i" for k
    proof -
      obtain k' where k': "1 \<le> k'" "L = Fin (of_int k')" using cases k(1) by auto
      then have "(of_int k' :: rat) = of_int k" using k(1) by simp
      then have "k' = k" by (simp only: of_int_eq_iff)
      then have k1: "1 \<le> k" using k'(1) by simp
      then have "i - nat k < i" using k(2) by linarith
      then show ?thesis using val k k1 by (simp add: lagged_value_whole)
    qed
    show ?thesis using el none below above by blast
  qed
  have B: "\<exists>out. buildDerivedSeries H st raw h p = (st\<lparr>lagPeriods := L\<rparr>, Inr out)
                 \<and> length out = length raw
                 \<and> (\<forall>i<length raw.
                       (\<exists>x y. out ! i = (raw ! i)(''mu_d_exit'' \<mapsto> x, ''cohort_week'' \<mapsto> y))
                     \<and> (L = NaN \<or> L = PInf
                          \<longrightarrow> get (out ! i) ''mu_d_exit'' = JNull
                              \<and> get (out ! i) ''cohort_week'' = JNull)
                     \<and> (\<forall>k. L = Fin (of_int k) \<and> int i < k
                          \<longrightarrow> get (out ! i) ''mu_d_exit'' = JNull
                              \<and> get (out ! i) ''cohort_week'' = JNull)
                     \<and> (\<forall>k. L = Fin (of_int k) \<and> k \<le> int i
                          \<longrightarrow> i - nat k < i
                              \<and> get (out ! i) ''mu_d_exit'' = get (raw ! (i - nat k)) ''mu_d''
                              \<and> get (out ! i) ''cohort_week'' = get (raw ! (i - nat k)) ''week''))"
    if go: "\<not> (raw = [] \<or> \<not> ToBoolean p \<or> num_le (ToNumber H p) (Fin 0))"
  proof -
    have "buildDerivedSeries H st raw h p = (st\<lparr>lagPeriods := L\<rparr>, Inr ?out)"
      unfolding L by (rule buildDerivedSeries_result[OF assms(1) go])
    moreover have "length ?out = length raw" by simp
    ultimately show ?thesis using each by blast
  qed
  have C: "\<forall>n. p = JNum n
             \<longrightarrow> (\<not> ToBoolean p \<or> num_le (ToNumber H p) (Fin 0)) = (\<not> num_lt (Fin 0) n)"
    using guard_number by blast
  have Z: "L = Fin 1" if "is_zero (ToNumber H h) \<and> num_lt (Fin 0) (ToNumber H p)"
    unfolding L using that lagPeriods_zero_horizon[of H h p] by blast
  show ?thesis using A B C Z cases by blast
qed

theorem buildDerivedSeries_shape_witness:
  "\<forall>H st. length [week_null, week_two] < 2 ^ 32
     \<and> Fin 1 = math_max (Fin 1) (math_ceil (num_div (ToNumber H (num 0)) (ToNumber H (num 7))))
     \<and> Fin 5 = math_max (Fin 1) (math_ceil (num_div (ToNumber H (num 30)) (ToNumber H (num 7))))
     \<and> \<not> ([week_null, week_two] = [] \<or> \<not> ToBoolean (num 7) \<or> num_le (ToNumber H (num 7)) (Fin 0))
     \<and> (\<exists>out. buildDerivedSeries H st [week_null, week_two] (num 0) (num 7)
                 = (st\<lparr>lagPeriods := Fin 1\<rparr>, Inr out)
           \<and> length out = 2
           \<and> get (out ! 0) ''mu_d_exit'' = JNull
           \<and> get (out ! 1) ''mu_d_exit'' = num 5
           \<and> get (out ! 1) ''cohort_week'' = JNull
           \<and> get (out ! 1) ''week'' = JStr ''W2'')
     \<and> (\<exists>out. buildDerivedSeries H st [week_null, week_two] (num 30) (num 7)
                 = (st\<lparr>lagPeriods := Fin 5\<rparr>, Inr out)
           \<and> length out = 2
           \<and> get (out ! 1) ''mu_d_exit'' = JNull)
     \<and> buildDerivedSeries H st [week_null, week_two] (num 0) (num 0) = (st, Inr [])"
proof (intro allI)
  fix H st
  let ?raw = "[week_null, week_two]"
  have len: "length ?raw < 2 ^ 32" by simp
  have l1: "Fin 1 = math_max (Fin 1) (math_ceil (num_div (ToNumber H (num 0)) (ToNumber H (num 7))))"
    by (simp add: num_def lag_examples(3))
  have l5: "Fin 5 = math_max (Fin 1) (math_ceil (num_div (ToNumber H (num 30)) (ToNumber H (num 7))))"
    by (simp add: num_def lag_examples(1))
  have l0: "NaN = math_max (Fin 1) (math_ceil (num_div (ToNumber H (num 0)) (ToNumber H (num 0))))"
    by (simp add: num_def num_div_def math_max_def)
  have go: "\<not> (?raw = [] \<or> \<not> ToBoolean (num 7) \<or> num_le (ToNumber H (num 7)) (Fin 0))"
    by (simp add: num_def num_le_def num_lt_def)
  have stop: "\<not> ToBoolean (num 0)" by (simp add: num_def)
  note t1 = buildDerivedSeries_shape[OF len l1, of st]
  note t5 = buildDerivedSeries_shape[OF len l5, of st]
  note t0 = buildDerivedSeries_shape[OF len l0, of st]
  from t1 go obtain out where o: "buildDerivedSeries H st ?raw (num 0) (num 7)
                 = (st\<lparr>lagPeriods := Fin 1\<rparr>, Inr out)" "length out = length ?raw"
    and e: "\<forall>i<length ?raw.
                       (\<exists>x y. out ! i = (?raw ! i)(''mu_d_exit'' \<mapsto> x, ''cohort_week'' \<mapsto> y))
                     \<and> (\<forall>k. Fin 1 = Fin (of_int k) \<and> int i < k
                          \<longrightarrow> get (out ! i) ''mu_d_exit'' = JNull
                              \<and> get (out ! i) ''cohort_week'' = JNull)
                     \<and> (\<forall>k. Fin 1 = Fin (of_int k) \<and> k \<le> int i
                          \<longrightarrow> i - nat k < i
                              \<and> get (out ! i) ''mu_d_exit'' = get (?raw ! (i - nat k)) ''mu_d''
                              \<and> get (out ! i) ''cohort_week'' = get (?raw ! (i - nat k)) ''week'')"
    by blast
  have e0: "get (out ! 0) ''mu_d_exit'' = JNull"
    using e[rule_format, of 0] by (auto dest: spec[of _ 1])
  have e1: "get (out ! 1) ''mu_d_exit'' = num 5 \<and> get (out ! 1) ''cohort_week'' = JNull"
  proof -
    have "\<forall>k. Fin 1 = Fin (of_int k) \<and> k \<le> int 1
                          \<longrightarrow> get (out ! 1) ''mu_d_exit'' = get (?raw ! (1 - nat k)) ''mu_d''
                              \<and> get (out ! 1) ''cohort_week'' = get (?raw ! (1 - nat k)) ''week''"
      using e[rule_format, of 1] by simp
    from this[rule_format, of 1] show ?thesis by (simp add: week_null_def get_def)
  qed
  have w1: "get (out ! 1) ''week'' = JStr ''W2''"
  proof -
    obtain x y where "out ! 1 = (?raw ! 1)(''mu_d_exit'' \<mapsto> x, ''cohort_week'' \<mapsto> y)"
      using e[rule_format, of 1] by auto
    then show ?thesis by (simp add: get_def week_two_def)
  qed
  from t5 go obtain out5 where o5: "buildDerivedSeries H st ?raw (num 30) (num 7)
                 = (st\<lparr>lagPeriods := Fin 5\<rparr>, Inr out5)" "length out5 = length ?raw"
    and e5: "\<forall>i<length ?raw. (\<forall>k. Fin 5 = Fin (of_int k) \<and> int i < k
                          \<longrightarrow> get (out5 ! i) ''mu_d_exit'' = JNull
                              \<and> get (out5 ! i) ''cohort_week'' = JNull)"
    by blast
  have e51: "get (out5 ! 1) ''mu_d_exit'' = JNull"
    using e5[rule_format, of 1 5] by simp
  have empty: "buildDerivedSeries H st ?raw (num 0) (num 0) = (st, Inr [])"
    using t0 stop by blast
  show "length ?raw < 2 ^ 32
     \<and> Fin 1 = math_max (Fin 1) (math_ceil (num_div (ToNumber H (num 0)) (ToNumber H (num 7))))
     \<and> Fin 5 = math_max (Fin 1) (math_ceil (num_div (ToNumber H (num 30)) (ToNumber H (num 7))))
     \<and> \<not> (?raw = [] \<or> \<not> ToBoolean (num 7) \<or> num_le (ToNumber H (num 7)) (Fin 0))
     \<and> (\<exists>out. buildDerivedSeries H st ?raw (num 0) (num 7) = (st\<lparr>lagPeriods := Fin 1\<rparr>, Inr out)
           \<and> length out = 2
           \<and> get (out ! 0) ''mu_d_exit'' = JNull
           \<and> get (out ! 1) ''mu_d_exit'' = num 5
           \<and> get (out ! 1) ''cohort_week'' = JNull
           \<and> get (out ! 1) ''week'' = JStr ''W2'')
     \<and> (\<exists>out. buildDerivedSeries H st ?raw (num 30) (num 7) = (st\<lparr>lagPeriods := Fin 5\<rparr>, Inr out)
           \<and> length out = 2
           \<and> get (out ! 1) ''mu_d_exit'' = JNull)
     \<and> buildDerivedSeries H st ?raw (num 0) (num 0) = (st, Inr [])"
    using len l1 l5 go o e0 e1 w1 o5 e51 empty by auto
qed

text \<open>
  C4. On a series that passes the guard of \<open>buildDerivedSeries\<close>, \<open>mu_d_exit\<close> and
  \<open>cohort_week\<close> of index i are \<open>null\<close> whenever the lag does not satisfy
  \<open>lagPeriods <= i\<close> (the lagged index is negative, or the lag is NaN); otherwise they are
  the \<open>mu_d\<close> and the \<open>week\<close> of the element \<open>i - lagPeriods\<close>, whatever these are. In the
  engine's rolling window, the ratio of a row is \<open>null\<close> until W days of history exist
  and whenever the arrivals of the window sum to zero.
\<close>

theorem lagged_values_null:
  assumes "length raw < 2 ^ 32"
    and "\<not> (raw = [] \<or> \<not> ToBoolean p \<or> num_le (ToNumber H p) (Fin 0))"
  shows "(\<exists>out. snd (buildDerivedSeries H st raw h p) = Inr out \<and> length out = length raw
     \<and> (\<forall>i<length raw.
          (\<not> num_le (lagPeriods_of H h p) (Fin (of_nat i))
             \<longrightarrow> get (out ! i) ''mu_d_exit'' = JNull \<and> get (out ! i) ''cohort_week'' = JNull)
        \<and> (num_le (lagPeriods_of H h p) (Fin (of_nat i))
             \<longrightarrow> (\<exists>j<i. exit_index (lagPeriods_of H h p) i = Some j
                  \<and> get (out ! i) ''mu_d_exit'' = get (raw ! j) ''mu_d''
                  \<and> get (out ! i) ''cohort_week'' = get (raw ! j) ''week''))))
     \<and> length (rolling bs W) = length bs
     \<and> (\<forall>n<length bs. (n + 1 < W \<longrightarrow> ratio (rolling bs W ! n) = None)
           \<and> (arrivals_sum (rolling bs W ! n) = 0 \<longrightarrow> ratio (rolling bs W ! n) = None))"
proof -
  let ?L = "lagPeriods_of H h p"
  let ?out = "map (\<lambda>(pt, i). pt(''mu_d_exit'' \<mapsto> lagged_value raw ?L i ''mu_d'',
                  ''cohort_week'' \<mapsto> lagged_value raw ?L i ''week'')) (zip raw [0..<length raw])"
  have res: "snd (buildDerivedSeries H st raw h p) = Inr ?out"
    using buildDerivedSeries_result[OF assms, of st h] by simp
  have each: "(\<not> num_le ?L (Fin (of_nat i))
             \<longrightarrow> get (?out ! i) ''mu_d_exit'' = JNull \<and> get (?out ! i) ''cohort_week'' = JNull)
        \<and> (num_le ?L (Fin (of_nat i))
             \<longrightarrow> (\<exists>j<i. exit_index ?L i = Some j
                  \<and> get (?out ! i) ''mu_d_exit'' = get (raw ! j) ''mu_d''
                  \<and> get (?out ! i) ''cohort_week'' = get (raw ! j) ''week''))"
    if i: "i < length raw" for i
  proof -
    have val: "get (?out ! i) ''mu_d_exit'' = lagged_value raw ?L i ''mu_d''"
      "get (?out ! i) ''cohort_week'' = lagged_value raw ?L i ''week''"
      using i by (simp_all add: get_def)
    show ?thesis
    proof (cases "exit_index ?L i")
      case None
      then have "\<not> num_le ?L (Fin (of_nat i))" using exit_index_None_iff[of H h p i] by simp
      then show ?thesis using val None by (simp add: lagged_value_def)
    next
      case (Some j)
      then have "num_le ?L (Fin (of_nat i))" using exit_index_None_iff[of H h p i] by simp
      moreover have "j < i" using Some by (rule exit_index_lt)
      ultimately show ?thesis using val Some by (simp add: lagged_value_def)
    qed
  qed
  have roll: "(n + 1 < W \<longrightarrow> ratio (rolling bs W ! n) = None)
           \<and> (arrivals_sum (rolling bs W ! n) = 0 \<longrightarrow> ratio (rolling bs W ! n) = None)"
    if "n < length bs" for n
    using rolling_from_null[OF that, of 0 W bs 0 0] by (simp add: rolling_def)
  have len: "length (rolling bs W) = length bs" by (simp add: rolling_def rolling_from_length)
  have "length ?out = length raw" by simp
  then show ?thesis using res each roll len by blast
qed

theorem lagged_values_null_witness:
  "\<forall>H st. length [week_null, week_two] < 2 ^ 32
     \<and> \<not> ([week_null, week_two] = [] \<or> \<not> ToBoolean (num 7) \<or> num_le (ToNumber H (num 7)) (Fin 0))
     \<and> \<not> num_le (lagPeriods_of H (num 7) (num 7)) (Fin (of_nat 0))
     \<and> num_le (lagPeriods_of H (num 7) (num 7)) (Fin (of_nat 1))
     \<and> (\<exists>out. snd (buildDerivedSeries H st [week_null, week_two] (num 7) (num 7)) = Inr out
           \<and> get (out ! 0) ''mu_d_exit'' = JNull \<and> get (out ! 0) ''cohort_week'' = JNull
           \<and> get (out ! 1) ''mu_d_exit'' = num 5)
     \<and> 0 + 1 < (2::nat) \<and> ratio (rolling sample_buckets 2 ! 0) = None
     \<and> arrivals_sum (rolling sample_buckets 2 ! 2) = 0 \<and> ratio (rolling sample_buckets 2 ! 2) = None"
proof (intro allI)
  fix H st
  let ?raw = "[week_null, week_two]"
  have len: "length ?raw < 2 ^ 32" by simp
  have go: "\<not> (?raw = [] \<or> \<not> ToBoolean (num 7) \<or> num_le (ToNumber H (num 7)) (Fin 0))"
    by (simp add: num_def num_le_def num_lt_def)
  have l0: "\<not> num_le (lagPeriods_of H (num 7) (num 7)) (Fin (of_nat 0))"
    and l1: "num_le (lagPeriods_of H (num 7) (num 7)) (Fin (of_nat 1))"
    by (simp_all add: lagPeriods_7_7 num_le_def num_lt_def)
  have a: "arrivals_sum (rolling sample_buckets 2 ! 2) = 0"
    by (simp add: rolling_def sample_buckets_def Let_def)
  from lagged_values_null[OF len go, of st "num 7" sample_buckets 2]
  obtain out where out: "snd (buildDerivedSeries H st ?raw (num 7) (num 7)) = Inr out"
    and each: "\<forall>i<length ?raw.
          (\<not> num_le (lagPeriods_of H (num 7) (num 7)) (Fin (of_nat i))
             \<longrightarrow> get (out ! i) ''mu_d_exit'' = JNull \<and> get (out ! i) ''cohort_week'' = JNull)
        \<and> (num_le (lagPeriods_of H (num 7) (num 7)) (Fin (of_nat i))
             \<longrightarrow> (\<exists>j<i. exit_index (lagPeriods_of H (num 7) (num 7)) i = Some j
                  \<and> get (out ! i) ''mu_d_exit'' = get (?raw ! j) ''mu_d''
                  \<and> get (out ! i) ''cohort_week'' = get (?raw ! j) ''week''))"
    and roll: "\<forall>n<length sample_buckets.
           (n + 1 < 2 \<longrightarrow> ratio (rolling sample_buckets 2 ! n) = None)
           \<and> (arrivals_sum (rolling sample_buckets 2 ! n) = 0
                \<longrightarrow> ratio (rolling sample_buckets 2 ! n) = None)"
    by blast
  have o0: "get (out ! 0) ''mu_d_exit'' = JNull \<and> get (out ! 0) ''cohort_week'' = JNull"
    using each[rule_format, of 0] l0 by simp
  have "\<exists>j<1. get (out ! 1) ''mu_d_exit'' = get (?raw ! j) ''mu_d''"
    using each[rule_format, of 1] l1 by auto
  then have o1: "get (out ! 1) ''mu_d_exit'' = num 5"
    by (simp add: week_null_def get_def)
  have r0: "ratio (rolling sample_buckets 2 ! 0) = None"
    using roll[rule_format, of 0] by (simp add: sample_buckets_def)
  have r2: "ratio (rolling sample_buckets 2 ! 2) = None"
    using roll[rule_format, of 2] a by (simp add: sample_buckets_def)
  show "length ?raw < 2 ^ 32
     \<and> \<not> (?raw = [] \<or> \<not> ToBoolean (num 7) \<or> num_le (ToNumber H (num 7)) (Fin 0))
     \<and> \<not> num_le (lagPeriods_of H (num 7) (num 7)) (Fin (of_nat 0))
     \<and> num_le (lagPeriods_of H (num 7) (num 7)) (Fin (of_nat 1))
     \<and> (\<exists>out. snd (buildDerivedSeries H st ?raw (num 7) (num 7)) = Inr out
           \<and> get (out ! 0) ''mu_d_exit'' = JNull \<and> get (out ! 0) ''cohort_week'' = JNull
           \<and> get (out ! 1) ''mu_d_exit'' = num 5)
     \<and> 0 + 1 < (2::nat) \<and> ratio (rolling sample_buckets 2 ! 0) = None
     \<and> arrivals_sum (rolling sample_buckets 2 ! 2) = 0 \<and> ratio (rolling sample_buckets 2 ! 2) = None"
    using len go l0 l1 out o0 o1 r0 r2 a by auto
qed

theorem cohort_week_null_at_index_one:
  "\<forall>H st. snd (buildDerivedSeries H st [week_null, week_two] (num 7) (num 7))
       = Inr [week_null(''mu_d_exit'' \<mapsto> JNull, ''cohort_week'' \<mapsto> JNull),
              week_two(''mu_d_exit'' \<mapsto> num 5, ''cohort_week'' \<mapsto> JNull)]
     \<and> num_sub (Fin 1) (lagPeriods_of H (num 7) (num 7)) = Fin 0
     \<and> num_ge (Fin 0) (Fin 0)"
proof (intro allI)
  fix H st
  have len: "length [week_null, week_two] < 2 ^ 32" by simp
  have go: "\<not> ([week_null, week_two] = [] \<or> \<not> ToBoolean (num 7)
               \<or> num_le (ToNumber H (num 7)) (Fin 0))"
    by (simp add: num_def num_le_def num_lt_def)
  have e0: "exit_index (Fin 1) 0 = None" and e1: "exit_index (Fin 1) (Suc 0) = Some 0"
    by (simp_all add: exit_index_def)
  have "snd (buildDerivedSeries H st [week_null, week_two] (num 7) (num 7))
       = Inr [week_null(''mu_d_exit'' \<mapsto> JNull, ''cohort_week'' \<mapsto> JNull),
              week_two(''mu_d_exit'' \<mapsto> num 5, ''cohort_week'' \<mapsto> JNull)]"
    unfolding buildDerivedSeries_result[OF len go] lagPeriods_7_7
    by (simp add: lagged_value_def e0 e1 upt_rec get_def week_null_def)
  moreover have "num_sub (Fin 1) (lagPeriods_of H (num 7) (num 7)) = Fin 0"
    by (simp add: lagPeriods_7_7 num_sub_def num_add_def)
  moreover have "num_ge (Fin 0) (Fin 0)" by (simp add: num_ge_def num_lt_def)
  ultimately show "snd (buildDerivedSeries H st [week_null, week_two] (num 7) (num 7))
       = Inr [week_null(''mu_d_exit'' \<mapsto> JNull, ''cohort_week'' \<mapsto> JNull),
              week_two(''mu_d_exit'' \<mapsto> num 5, ''cohort_week'' \<mapsto> JNull)]
     \<and> num_sub (Fin 1) (lagPeriods_of H (num 7) (num 7)) = Fin 0
     \<and> num_ge (Fin 0) (Fin 0)"
    by blast
qed

section \<open>Conservation\<close>



lemma filter_three:
  "length (filter (\<lambda>x. f x = Durable \<and> P x) xs) + length (filter (\<lambda>x. f x = Bounced \<and> P x) xs)
   + length (filter (\<lambda>x. f x = Pending \<and> P x) xs) = length (filter P xs)"
proof (induction xs)
  case Nil
  then show ?case by simp
next
  case (Cons x xs)
  then show ?case by (cases "f x") auto
qed

lemma attempts_split:
  "count_kind ces Attempt d
   = count_status (classify_durability ces T) Durable d
     + count_status (classify_durability ces T) Bounced d
     + count_status (classify_durability ces T) Pending d"
proof -
  have "count_status (classify_durability ces T) s d
        = length (filter (\<lambda>c. durability_of ces T c = s \<and> date c = d)
                    (filter (\<lambda>c. kind c = Attempt) ces))" for s
    by (simp add: count_status_def classify_durability_def filter_map comp_def)
  moreover have "count_kind ces Attempt d
        = length (filter (\<lambda>c. date c = d) (filter (\<lambda>c. kind c = Attempt) ces))"
    by (simp add: count_kind_def conj_commute)
  ultimately show ?thesis
    using filter_three[of "durability_of ces T" "\<lambda>c. date c = d" "filter (\<lambda>c. kind c = Attempt) ces"]
    by simp
qed







section \<open>The durability classifier\<close>

lemma max_list_ge: "x \<in> set xs \<Longrightarrow> x \<le> max_list xs"
  by (induction xs rule: max_list.induct) auto

lemma min_list_le: "x \<in> set xs \<Longrightarrow> min_list xs \<le> x"
  by (induction xs rule: min_list.induct) auto

lemma date_in_span:
  assumes "a \<in> set ces"
  shows "min_date ces \<le> date a" "date a \<le> max_date ces"
  using assms by (auto simp: min_date_def max_date_def intro: min_list_le max_list_ge)

lemma bucket_in_aggregate:
  assumes "a \<in> set ces"
  shows "bucket ces ars (date a) \<in> set (aggregate ces ars)"
proof -
  have "ces \<noteq> []" using assms by auto
  moreover have "date a \<in> set [min_date ces..max_date ces]" using date_in_span[OF assms] by simp
  ultimately show ?thesis by (simp add: aggregate_def)
qed

lemma pending_record:
  assumes "a \<in> set ces" "kind a = Attempt" "max_date ces < date a + T"
  shows "\<lparr>a_entity = entity a, a_date = date a, a_status = Pending\<rparr>
         \<in> set (classify_durability ces T)"
proof -
  have "durability_of ces T a = Pending" using assms(3) by (simp add: durability_of_def)
  then show ?thesis using assms(1,2) by (force simp: classify_durability_def)
qed

lemma pending_counted:
  assumes "a \<in> set ces" "kind a = Attempt" "max_date ces < date a + T"
  shows "0 < count_status (classify_durability ces T) Pending (date a)"
proof -
  have "\<lparr>a_entity = entity a, a_date = date a, a_status = Pending\<rparr>
        \<in> set (filter (\<lambda>r. a_status r = Pending \<and> a_date r = date a) (classify_durability ces T))"
    using pending_record[OF assms] by simp
  then show ?thesis unfolding count_status_def by (metis length_pos_if_in_set)
qed

lemma classify_ledger_reopen:
  "classify ledger_reopen
   = [\<lparr>entity = ''C2'', kind = Arrival, date = 1\<rparr>, \<lparr>entity = ''C2'', kind = Attempt, date = 5\<rparr>,
      \<lparr>entity = ''C2'', kind = Reopen, date = 10\<rparr>, \<lparr>entity = ''D'', kind = Arrival, date = 40\<rparr>]"
  by code_simp

text \<open>
  C2. The edge policy of the Durability Classifier. An attempt whose window \<open>d + T\<close>
  exceeds the maximum observed date is classified pending, neither durable nor bounced;
  its day's durable and bounced counts leave it out (they add up to less than the
  attempts), the validator does not check that day, and the diagnostics list the day
  with its count of pending attempts.
\<close>

theorem pending_edge_policy:
  assumes "a \<in> set ces" and "kind a = Attempt" and "max_date ces < date a + T"
  shows "durability_of ces T a = Pending
     \<and> \<lparr>a_entity = entity a, a_date = date a, a_status = Pending\<rparr>
          \<in> set (classify_durability ces T)
     \<and> bucket ces (classify_durability ces T) (date a)
          \<in> set (aggregate ces (classify_durability ces T))
     \<and> 0 < pending (bucket ces (classify_durability ces T) (date a))
     \<and> attempts (bucket ces (classify_durability ces T) (date a))
         = durable (bucket ces (classify_durability ces T) (date a))
           + bounced (bucket ces (classify_durability ces T) (date a))
           + pending (bucket ces (classify_durability ces T) (date a))
     \<and> durable (bucket ces (classify_durability ces T) (date a))
         + bounced (bucket ces (classify_durability ces T) (date a))
         < attempts (bucket ces (classify_durability ces T) (date a))
     \<and> bucket ces (classify_durability ces T) (date a)
          \<notin> set (validate (aggregate ces (classify_durability ces T)))
     \<and> (date a, pending (bucket ces (classify_durability ces T) (date a)))
          \<in> set (pending_by_day (aggregate ces (classify_durability ces T)))"
proof -
  let ?ars = "classify_durability ces T"
  let ?b = "bucket ces ?ars (date a)"
  have st: "durability_of ces T a = Pending" using assms(3) by (simp add: durability_of_def)
  have rec: "\<lparr>a_entity = entity a, a_date = date a, a_status = Pending\<rparr> \<in> set ?ars"
    using assms by (rule pending_record)
  have mem: "?b \<in> set (aggregate ces ?ars)" using assms(1) by (rule bucket_in_aggregate)
  have pos: "0 < pending ?b" using pending_counted[OF assms] by (simp add: bucket_def)
  have sum: "attempts ?b = durable ?b + bounced ?b + pending ?b"
    using attempts_split[of ces "date a" T] by (simp add: bucket_def)
  have less: "durable ?b + bounced ?b < attempts ?b" using pos sum by simp
  have nv: "?b \<notin> set (validate (aggregate ces ?ars))" using pos by (simp add: validate_def)
  have "(b_date ?b, pending ?b) \<in> set (pending_by_day (aggregate ces ?ars))"
    unfolding pending_by_day_def using mem pos by force
  then have diag: "(date a, pending ?b) \<in> set (pending_by_day (aggregate ces ?ars))"
    by (simp add: bucket_def)
  show ?thesis using st rec mem pos sum less nv diag by blast
qed

theorem pending_edge_policy_witness:
  "\<lparr>entity = ''C2'', kind = Attempt, date = 5\<rparr> \<in> set (classify ledger_reopen)
   \<and> kind \<lparr>entity = ''C2'', kind = Attempt, date = 5\<rparr> = Attempt
   \<and> max_date (classify ledger_reopen) < date \<lparr>entity = ''C2'', kind = Attempt, date = 5\<rparr> + 40
   \<and> durability_of (classify ledger_reopen) 40 \<lparr>entity = ''C2'', kind = Attempt, date = 5\<rparr> = Pending
   \<and> (5, pending (bucket (classify ledger_reopen)
                     (classify_durability (classify ledger_reopen) 40) 5))
        \<in> set (pending_by_day (aggregate (classify ledger_reopen)
                                  (classify_durability (classify ledger_reopen) 40)))"
proof -
  let ?a = "\<lparr>entity = ''C2'', kind = Attempt, date = 5\<rparr>"
  have 1: "?a \<in> set (classify ledger_reopen)" by (simp add: classify_ledger_reopen)
  have 2: "kind ?a = Attempt" by simp
  have 3: "max_date (classify ledger_reopen) < date ?a + 40"
    by (simp add: classify_ledger_reopen max_date_def)
  show ?thesis using pending_edge_policy[OF 1 2 3] 1 3 by simp
qed

section \<open>formatNumber\<close>

lemma formatNumber_not_finite:
  "\<not> is_finite (ToNumber H v) \<Longrightarrow> formatNumber H v digits = Inr em_dash"
  by (simp add: formatNumber_def)

lemma toFixed_default_NaN: "toFixed H NaN (JNum (Fin 1)) = Inr ''NaN''"
  by (simp add: toFixed_def ToIntegerOrInfinity_def)

lemma toFixed_default_PInf: "toFixed H PInf (JNum (Fin 1)) = Inr ''Infinity''"
  by (simp add: toFixed_def ToIntegerOrInfinity_def)

lemma formatNumber_old_NaN:
  "parseFloat H v = NaN \<Longrightarrow> formatNumber_old H v JUndefined = Inr ''NaN''"
  by (simp add: formatNumber_old_def toFixed_default_NaN)

lemma formatNumber_old_PInf:
  "parseFloat H v = PInf \<Longrightarrow> formatNumber_old H v JUndefined = Inr ''Infinity''"
  by (simp add: formatNumber_old_def toFixed_default_PInf)

lemma formatNumber_null: "formatNumber H JNull JUndefined = Inr ''0''"
  by (simp add: formatNumber_def toFixed_def ToIntegerOrInfinity_def dec.simps)

lemma em_dash_ne: "em_dash \<noteq> ''0''" "''0'' \<noteq> em_dash" "em_dash \<noteq> ''NaN''"
  by (simp_all add: em_dash_def)

lemma sample_abc: "StringToNumber host_sample ''abc'' = NaN"
  by (simp add: host_sample_def digits_to_number_def digit_of_def)

lemma sample_undefined: "parseFloat host_sample JUndefined = NaN"
  by (simp add: parseFloat_def host_sample_def digits_to_number_def digit_of_def)

text \<open>
  C8. \<open>formatNumber\<close> returns the placeholder for every value whose conversion by
  \<open>Number\<close> is not finite, whatever \<open>digits\<close> is: for NaN, both infinities, \<open>undefined\<close>
  and every string that converts to NaN. It neither throws nor renders \<open>NaN\<close> there.
  \<open>null\<close> converts to 0 and is rendered as \<open>0\<close>. The earlier copy has no such guard: with
  the default \<open>digits\<close> it renders \<open>NaN\<close> and \<open>Infinity\<close>.
\<close>

theorem formatNumber_placeholder:
  "(\<not> is_finite (ToNumber H v) \<longrightarrow> formatNumber H v digits = Inr em_dash)
   \<and> formatNumber H (JNum NaN) digits = Inr em_dash
   \<and> formatNumber H (JNum PInf) digits = Inr em_dash
   \<and> formatNumber H (JNum NInf) digits = Inr em_dash
   \<and> formatNumber H JUndefined digits = Inr em_dash
   \<and> (\<not> is_finite (StringToNumber H s) \<longrightarrow> formatNumber H (JStr s) digits = Inr em_dash)
   \<and> formatNumber H JNull JUndefined = Inr ''0''
   \<and> (parseFloat H v = NaN \<longrightarrow> formatNumber_old H v JUndefined = Inr ''NaN'')
   \<and> (parseFloat H v = PInf \<longrightarrow> formatNumber_old H v JUndefined = Inr ''Infinity'')"
  using formatNumber_not_finite[of H v digits] formatNumber_not_finite[of H "JStr s" digits]
    formatNumber_old_NaN[of H v] formatNumber_old_PInf[of H v]
  by (simp add: formatNumber_not_finite formatNumber_null)

theorem formatNumber_placeholder_witness:
  "\<not> is_finite (ToNumber host_sample (JStr ''abc''))
   \<and> formatNumber host_sample (JStr ''abc'') JUndefined = Inr em_dash
   \<and> \<not> is_finite (StringToNumber host_sample ''abc'')
   \<and> parseFloat host_sample JUndefined = NaN
   \<and> formatNumber_old host_sample JUndefined JUndefined = Inr ''NaN''"
  using formatNumber_placeholder[of host_sample "JStr ''abc''" JUndefined "''abc''"]
    formatNumber_placeholder[of host_sample JUndefined JUndefined "''abc''"]
  by (simp add: sample_abc sample_undefined)

theorem formatNumber_of_null:
  "\<forall>H. ToNumber H JNull = Fin 0 \<and> formatNumber H JNull JUndefined = Inr ''0''
     \<and> formatNumber H JNull JUndefined \<noteq> Inr em_dash"
  by (simp add: formatNumber_null em_dash_ne)

section \<open>Parameters and their defaults\<close>

lemma sample_state_horizon:
  "horizonDays (sample_state H pl s)
   = (if ToBoolean (get (props pl) ''horizon_days'') then get (props pl) ''horizon_days''
      else JNum (Fin 30))"
  by (simp add: sample_state_def js_or_def)

lemma parsed_or_num:
  "parsed_or H f i d
   = (if is_zero (parseFloatString H (f i)) \<or> parseFloatString H (f i) = NaN then d
      else JNum (parseFloatString H (f i)))"
  by (simp add: parsed_or_def js_or_def)

lemma buildDerivedSeries_state:
  "fst (buildDerivedSeries H s raw h p)
   = (if raw = [] \<or> \<not> ToBoolean p \<or> num_le (ToNumber H p) (Fin 0) then s
      else s\<lparr>lagPeriods := lagPeriods_of H h p\<rparr>)"
  by (simp add: buildDerivedSeries_def Let_def)

lemma recompute_global:
  assumes "rawSeries (global pg) \<noteq> []"
  shows "\<exists>ser. global (fst (recomputeAndRender H pg))
         = (fst (buildDerivedSeries H ((global pg)\<lparr>horizonDays := parsed_or H (inputs pg) ''horizon'' (horizonDays (global pg))\<rparr>)
                  (rawSeries (global pg))
                  (parsed_or H (inputs pg) ''horizon'' (horizonDays (global pg)))
                  (parsed_or H (inputs pg) ''periodDays'' (JNum (Fin 1)))))\<lparr>series := ser\<rparr>"
proof -
  let ?h = "parsed_or H (inputs pg) ''horizon'' (horizonDays (global pg))"
  let ?p = "parsed_or H (inputs pg) ''periodDays'' (JNum (Fin 1))"
  let ?s1 = "(global pg)\<lparr>horizonDays := ?h\<rparr>"
  obtain s2 r where b: "buildDerivedSeries H ?s1 (rawSeries (global pg)) ?h ?p = (s2, r)"
    by (cases "buildDerivedSeries H ?s1 (rawSeries (global pg)) ?h ?p")
  show ?thesis
  proof (cases r)
    case (Inl e)
    then have "global (fst (recomputeAndRender H pg)) = s2"
      using assms b by (simp add: recomputeAndRender_def Let_def)
    then have "global (fst (recomputeAndRender H pg)) = s2\<lparr>series := series s2\<rparr>" by simp
    then show ?thesis using b by (metis fst_conv)
  next
    case (Inr d)
    then have "global (fst (recomputeAndRender H pg)) = s2\<lparr>series := d\<rparr>"
      using assms b by (simp add: recomputeAndRender_def Let_def)
    then show ?thesis using b by (metis fst_conv)
  qed
qed

lemma load_fields:
  assumes "series_of pl \<noteq> []"
  shows "\<exists>f. loadSampleData H pl pg
              = recomputeAndRender H \<lparr>global = sample_state H pl (global pg), inputs = f\<rparr>
           \<and> f ''horizon''
              = fieldValue H ''horizon'' (ToString H (horizonDays (sample_state H pl (global pg))))
           \<and> f ''periodDays'' = fieldValue H ''periodDays'' (ToString H (JNum (Fin 7)))"
proof -
  have ne: "rawSeries (sample_state H pl (global pg)) \<noteq> []"
    using assms by (simp add: sample_state_def)
  show ?thesis
    unfolding loadSampleData_def Let_def setField_def using ne
    by (intro exI conjI) (simp, simp_all)
qed

lemma sample_strings:
  "ToString host_sample (JNum (Fin 30)) = ''30''"
  "ToString host_sample (JNum (Fin 7)) = ''7''"
  "FiniteToString host_sample 30 = ''30''"
  "FiniteToString host_sample 7 = ''7''"
  "parseFloatString host_sample ''30'' = Fin 30"
  "parseFloatString host_sample ''7'' = Fin 7"
  "parseFloatString host_sample ''14'' = Fin 14"
  "lagPeriods_of host_sample (JNum (Fin 30)) (JNum (Fin 7)) = Fin 5"
  "lagPeriods_of host_sample (JNum (Fin 14)) (JNum (Fin 7)) = Fin 2"
  by code_simp+

lemma load_no_horizon:
  "horizonDays (global (fst (loadSampleData host_sample payload_no_horizon page_empty))) = JNum (Fin 30)
   \<and> lagPeriods (global (fst (loadSampleData host_sample payload_no_horizon page_empty))) = Fin 5"
proof -
  let ?s = "sample_state host_sample payload_no_horizon (global page_empty)"
  have hz: "horizonDays ?s = JNum (Fin 30)"
    by (simp add: sample_state_horizon payload_no_horizon_def get_def)
  have raw: "rawSeries ?s \<noteq> []" by (simp add: sample_state_def payload_no_horizon_def)
  have "series_of payload_no_horizon \<noteq> []" by (simp add: payload_no_horizon_def)
  from load_fields[OF this, of host_sample page_empty]
  obtain f where f: "loadSampleData host_sample payload_no_horizon page_empty
              = recomputeAndRender host_sample \<lparr>global = ?s, inputs = f\<rparr>"
    and fh: "f ''horizon'' = fieldValue host_sample ''horizon'' (ToString host_sample (horizonDays ?s))"
    and fp: "f ''periodDays'' = fieldValue host_sample ''periodDays'' (ToString host_sample (JNum (Fin 7)))"
    by blast
  have fv: "fieldValue host_sample i t = t" for i t by (simp add: host_sample_def)
  have h: "parsed_or host_sample f ''horizon'' (horizonDays ?s) = JNum (Fin 30)"
    by (simp add: parsed_or_num fh fp hz fv sample_strings)
  have p: "parsed_or host_sample f ''periodDays'' (JNum (Fin 1)) = JNum (Fin 7)"
    by (simp add: parsed_or_num fh fp hz fv sample_strings)
  from recompute_global[of "\<lparr>global = ?s, inputs = f\<rparr>" host_sample] raw
  obtain ser where g: "global (fst (recomputeAndRender host_sample \<lparr>global = ?s, inputs = f\<rparr>))
     = (fst (buildDerivedSeries host_sample (?s\<lparr>horizonDays := JNum (Fin 30)\<rparr>) (rawSeries ?s)
               (JNum (Fin 30)) (JNum (Fin 7))))\<lparr>series := ser\<rparr>"
    by (auto simp: h p)
  show ?thesis
    unfolding f g buildDerivedSeries_state using raw
    by (simp add: num_le_def num_lt_def sample_strings)
qed

text \<open>
  C7. The wrapper passes the engine its horizon, window and output directory
  explicitly. The dashboard defaults: \<open>loadSampleData\<close> takes the payload's
  \<open>horizon_days\<close> when it is truthy and 30 otherwise, and writes 7 to the period field;
  \<open>recomputeAndRender\<close> uses the number parsed from the horizon field unless it is 0 or
  NaN, when it keeps \<open>state.horizonDays\<close>, and the number parsed from the period field
  unless it is 0 or NaN, when it uses 1. A negative period stops \<open>buildDerivedSeries\<close>
  before the lag is assigned.
\<close>

theorem parameters_and_defaults:
  "flag_value (cmd) ''--horizon_days'' = Some ''30''
   \<and> flag_value (cmd) ''--window_days'' = Some ''90''
   \<and> flag_value (cmd) ''--output_dir'' = Some output_dir
   \<and> horizonDays (sample_state H pl s)
       = (if ToBoolean (get (props pl) ''horizon_days'') then get (props pl) ''horizon_days''
          else JNum (Fin 30))
   \<and> (series_of pl \<noteq> [] \<longrightarrow>
        (\<exists>f. loadSampleData H pl pg
                = recomputeAndRender H \<lparr>global = sample_state H pl (global pg), inputs = f\<rparr>
            \<and> f ''horizon''
                = fieldValue H ''horizon'' (ToString H (horizonDays (sample_state H pl (global pg))))
            \<and> f ''periodDays'' = fieldValue H ''periodDays'' (ToString H (JNum (Fin 7)))))
   \<and> (rawSeries (global pg) = [] \<longrightarrow> recomputeAndRender H pg = (pg, None))
   \<and> (rawSeries (global pg) \<noteq> [] \<longrightarrow>
        (let n = parseFloatString H (inputs pg ''horizon'');
             m = parseFloatString H (inputs pg ''periodDays'');
             h = (if is_zero n \<or> n = NaN then horizonDays (global pg) else JNum n);
             p = (if is_zero m \<or> m = NaN then JNum (Fin 1) else JNum m)
         in horizonDays (global (fst (recomputeAndRender H pg))) = h
            \<and> lagPeriods (global (fst (recomputeAndRender H pg)))
                = (if num_lt m (Fin 0) then lagPeriods (global pg) else lagPeriods_of H h p)))"
proof -
  have w: "flag_value (cmd) ''--horizon_days'' = Some ''30''"
    "flag_value (cmd) ''--window_days'' = Some ''90''"
    "flag_value (cmd) ''--output_dir'' = Some output_dir"
    by (simp_all add: cmd_def input_file_def output_dir_def)
  have e: "recomputeAndRender H pg = (pg, None)" if "rawSeries (global pg) = []"
    using that by (simp add: recomputeAndRender_def)
  have r: "let n = parseFloatString H (inputs pg ''horizon'');
             m = parseFloatString H (inputs pg ''periodDays'');
             h = (if is_zero n \<or> n = NaN then horizonDays (global pg) else JNum n);
             p = (if is_zero m \<or> m = NaN then JNum (Fin 1) else JNum m)
         in horizonDays (global (fst (recomputeAndRender H pg))) = h
            \<and> lagPeriods (global (fst (recomputeAndRender H pg)))
                = (if num_lt m (Fin 0) then lagPeriods (global pg) else lagPeriods_of H h p)"
    if ne: "rawSeries (global pg) \<noteq> []"
  proof -
    define m where "m = parseFloatString H (inputs pg ''periodDays'')"
    obtain ser where g: "global (fst (recomputeAndRender H pg))
         = (fst (buildDerivedSeries H
                   ((global pg)\<lparr>horizonDays := parsed_or H (inputs pg) ''horizon'' (horizonDays (global pg))\<rparr>)
                   (rawSeries (global pg))
                   (parsed_or H (inputs pg) ''horizon'' (horizonDays (global pg)))
                   (parsed_or H (inputs pg) ''periodDays'' (JNum (Fin 1)))))\<lparr>series := ser\<rparr>"
      using recompute_global[OF ne, of H] by blast
    have guard: "(\<not> ToBoolean (if is_zero m \<or> m = NaN then JNum (Fin 1) else JNum m)
           \<or> num_le (ToNumber H (if is_zero m \<or> m = NaN then JNum (Fin 1) else JNum m)) (Fin 0))
          = num_lt m (Fin 0)"
      by (cases m) (auto simp: num_le_def num_lt_def)
    show ?thesis
      unfolding g buildDerivedSeries_state parsed_or_num Let_def m_def[symmetric]
      using ne guard by simp
  qed
  show ?thesis
    using w e r load_fields[of pl H pg] sample_state_horizon[of H pl s] by simp
qed

theorem parameters_and_defaults_witness:
  "series_of payload_no_horizon \<noteq> []
   \<and> rawSeries (global page_empty) = []
   \<and> recomputeAndRender host_sample page_empty = (page_empty, None)
   \<and> rawSeries (global page_loaded) \<noteq> []
   \<and> parseFloatString host_sample (inputs page_loaded ''horizon'') = Fin 14
   \<and> parseFloatString host_sample (inputs page_loaded ''periodDays'') = Fin 7
   \<and> horizonDays (global (fst (recomputeAndRender host_sample page_loaded))) = JNum (Fin 14)
   \<and> lagPeriods (global (fst (recomputeAndRender host_sample page_loaded))) = Fin 2"
proof -
  have a: "series_of payload_no_horizon \<noteq> []" by (simp add: payload_no_horizon_def)
  have b: "rawSeries (global page_empty) = []" by (simp add: page_empty_def initial_state_def)
  have c: "rawSeries (global page_loaded) \<noteq> []" by (simp add: page_loaded_def)
  have n: "parseFloatString host_sample (inputs page_loaded ''horizon'') = Fin 14"
    and m: "parseFloatString host_sample (inputs page_loaded ''periodDays'') = Fin 7"
    by (simp_all add: page_loaded_def sample_strings)
  have e: "recomputeAndRender host_sample page_empty = (page_empty, None)"
    using parameters_and_defaults[of host_sample payload_no_horizon initial_state page_empty] b
    by blast
  have "horizonDays (global (fst (recomputeAndRender host_sample page_loaded))) = JNum (Fin 14)
     \<and> lagPeriods (global (fst (recomputeAndRender host_sample page_loaded))) = Fin 2"
    using parameters_and_defaults[of host_sample payload_no_horizon initial_state page_loaded] c
    by (simp add: n m Let_def num_lt_def sample_strings)
  then show ?thesis using a b c n m e by blast
qed

theorem horizon_defaults_to_thirty:
  "get (props payload_no_horizon) ''horizon_days'' = JUndefined
   \<and> (\<forall>H s. horizonDays (sample_state H payload_no_horizon s) = JNum (Fin 30))
   \<and> horizonDays (global (fst (loadSampleData host_sample payload_no_horizon page_empty)))
       = JNum (Fin 30)
   \<and> lagPeriods (global (fst (loadSampleData host_sample payload_no_horizon page_empty))) = Fin 5"
  using load_no_horizon
  by (simp add: sample_state_horizon payload_no_horizon_def get_def)

section \<open>Objects in a store: what the functions leave untouched\<close>




























section \<open>Two runs on the same input\<close>






end
